theory Spec2Isabelle
  imports Complex_Main "HOL-Library.Monad_Syntax"
begin

section \<open>Conventions of the embedding\<close>

text \<open>
  The development embeds the fflonk backend of the repository
  (\<^verbatim>\<open>backend/fflonk/bn254/setup.go\<close> and \<^verbatim>\<open>backend/fflonk/bn254/prove.go\<close>).

  \<^item> A scalar (\<^verbatim>\<open>fr.Element\<close>) is a value of an arbitrary field \<open>'a\<close>; a slice of
    scalars is a list, and a polynomial is the list of its coefficients in its current form.
  \<^item> Go's \<^verbatim>\<open>int\<close> and \<^verbatim>\<open>uint64\<close> sizes and indices are natural numbers (slice
    lengths stay far below \<open>2^63\<close>, so no wrap-around is modelled); where the source stores
    the sentinel \<open>-1\<close> the value is an \<open>int\<close>.
  \<^item> A run-time panic (index out of range, a negative length) is the value \<open>None\<close>; an
    error that a function returns is \<open>Inl\<close> of an \<open>error\<close>.
  \<^item> A \<^verbatim>\<open>for\<close> loop over an index range is \<open>foldM_opt\<close> over \<open>[0..<n]\<close>: the body is run
    for each index in turn and the first panic stops the loop.
\<close>

datatype error =
    ErrTooFewConstraints nat
  | ErrSrsTooSmall nat nat
  | ErrInvalidPolynomialSize

definition nth_opt :: "'a list \<Rightarrow> nat \<Rightarrow> 'a option" where
  "nth_opt xs i = (if i < length xs then Some (xs ! i) else None)"

definition upd_opt :: "'a list \<Rightarrow> nat \<Rightarrow> 'a \<Rightarrow> 'a list option" where
  "upd_opt xs i v = (if i < length xs then Some (xs[i := v]) else None)"

fun foldM_opt :: "('b \<Rightarrow> 's \<Rightarrow> 's option) \<Rightarrow> 'b list \<Rightarrow> 's \<Rightarrow> 's option" where
  "foldM_opt f [] s = Some s"
| "foldM_opt f (x # xs) s = (case f x s of None \<Rightarrow> None | Some s' \<Rightarrow> foldM_opt f xs s')"

section \<open>Collaborators outside the repository\<close>

text \<open>
  \<^verbatim>\<open>ecc.NextPowerOfTwo\<close> (gnark-crypto): 1 for 0, the argument itself when it is a power
  of two, the next power of two otherwise. \<open>np2 p n\<close> doubles \<open>p\<close> until it reaches \<open>n\<close>.
\<close>

function np2 :: "nat \<Rightarrow> nat \<Rightarrow> nat" where
  "np2 p n = (if n \<le> p \<or> p = 0 then p else np2 (2 * p) n)"
  by pat_completeness auto
termination
  by (relation "measure (\<lambda>(p, n). n - p)") auto

declare np2.simps [simp del]

definition NextPowerOfTwo :: "nat \<Rightarrow> nat" where
  "NextPowerOfTwo n = np2 1 n"

text \<open>
  \<^verbatim>\<open>fft.Domain\<close> with the fields the backend reads. \<^verbatim>\<open>fft.NewDomain(m)\<close> (gnark-crypto) has
  cardinality \<open>NextPowerOfTwo m\<close>; the generator of the subgroup of that cardinality and the
  generator of the multiplicative group depend on the scalar field and are parameters.
\<close>

record 'a Domain =
  Cardinality :: nat
  Generator :: 'a
  FrMultiplicativeGen :: 'a

text \<open>
  The parameters that stand for the scalar field and the polynomial library:
  \<open>ext_Generator c\<close> is the generator \<^verbatim>\<open>fft.NewDomain\<close> chooses for cardinality \<open>c\<close>,
  \<open>ext_FrMultiplicativeGen\<close> the coset shift, and \<open>ext_ToCanonical d p\<close> the coefficient
  slice of \<^verbatim>\<open>p.ToCanonical(d).ToRegular().Coefficients()\<close> for the polynomial whose current
  coefficient slice is \<open>p\<close>.
\<close>

record 'a Ext =
  ext_Generator :: "nat \<Rightarrow> 'a"
  ext_FrMultiplicativeGen :: 'a
  ext_ToCanonical :: "'a Domain \<Rightarrow> 'a list \<Rightarrow> 'a list"

definition NewDomain :: "'a Ext \<Rightarrow> nat \<Rightarrow> 'a Domain" where
  "NewDomain E m =
     \<lparr>Cardinality = NextPowerOfTwo m,
      Generator = ext_Generator E (NextPowerOfTwo m),
      FrMultiplicativeGen = ext_FrMultiplicativeGen E\<rparr>"

text \<open>
  \<^verbatim>\<open>kzg.Commit(p, pk)\<close> (gnark-crypto). A commitment is the multi-exponentiation
  \<open>\<Sum>\<^sub>i p\<^sub>i \<cdot> G1\<^sub>i\<close> of the coefficients with the first \<open>length p\<close> points of the key, so it
  needs one key point per coefficient: the library returns \<^verbatim>\<open>ErrInvalidPolynomialSize\<close>
  for an empty polynomial and for one with more coefficients than the key has points. A
  group element is represented by its scalar with respect to the group's generator, so the
  group law is the field's addition and a scalar acts by multiplication.
\<close>

definition MultiExp :: "'a::field list \<Rightarrow> 'a list \<Rightarrow> 'a" where
  "MultiExp points scalars = sum_list (map2 (*) scalars points)"

definition kzg_Commit :: "'a::field list \<Rightarrow> 'a list \<Rightarrow> error + 'a" where
  "kzg_Commit p G1 =
     (if length p = 0 \<or> length G1 < length p then Inl ErrInvalidPolynomialSize
      else Inr (MultiExp (take (length p) G1) p))"

section \<open>The circuit, the trace and the keys (setup.go)\<close>

text \<open>The enumeration of the entangled positions.\<close>

definition setup_ql :: nat where "setup_ql = 0"
definition setup_qr :: nat where "setup_qr = 1"
definition setup_qm :: nat where "setup_qm = 2"
definition setup_qo :: nat where "setup_qo = 3"
definition setup_qk_incomplete :: nat where "setup_qk_incomplete = 4"
definition setup_s1 :: nat where "setup_s1 = 5"
definition setup_s2 :: nat where "setup_s2 = 6"
definition setup_s3 :: nat where "setup_s3 = 7"
definition prover_l :: nat where "prover_l = 8"
definition prover_r :: nat where "prover_r = 9"
definition prover_o :: nat where "prover_o = 10"
definition prover_z :: nat where "prover_z = 11"
definition prover_h_1 :: nat where "prover_h_1 = 12"
definition prover_h_2 :: nat where "prover_h_2 = 13"
definition prover_h_3 :: nat where "prover_h_3 = 14"
definition number_polynomials :: nat where "number_polynomials = 15"

lemmas slot_defs =
  setup_ql_def setup_qr_def setup_qm_def setup_qo_def setup_qk_incomplete_def
  setup_s1_def setup_s2_def setup_s3_def prover_l_def prover_r_def prover_o_def
  prover_z_def prover_h_1_def prover_h_2_def prover_h_3_def number_polynomials_def

text \<open>
  The constraint system as the backend reads it: a sparse constraint holds the three wire
  ids and the indices of its five coefficients; \<open>Public\<close> and \<open>Secret\<close> are the lengths of
  \<^verbatim>\<open>spr.Public\<close> and \<^verbatim>\<open>spr.Secret\<close>; \<open>Constraints\<close> is what the iterator
  \<^verbatim>\<open>GetSparseR1CIterator\<close> yields, and \<^verbatim>\<open>GetNbConstraints\<close> is its length.
\<close>

record SparseR1C =
  XA :: nat
  XB :: nat
  XC :: nat
  QL :: nat
  QR :: nat
  QO :: nat
  QM :: nat
  QC :: nat

record PlonkCommitment =
  Committed :: "nat list"
  CommitmentIndex :: nat

record 'a SparseR1CS =
  Public :: nat
  Secret :: nat
  NbInternalVariables :: nat
  Constraints :: "SparseR1C list"
  Coefficients :: "'a list"
  CommitmentInfo :: "PlonkCommitment list"

record 'a Trace =
  Ql :: "'a list"
  Qr :: "'a list"
  Qm :: "'a list"
  Qo :: "'a list"
  Qk :: "'a list"
  Qcp :: "'a list list"
  S1 :: "'a list"
  S2 :: "'a list"
  S3 :: "'a list"
  S :: "int list"

text \<open>
  The verifying key with the fields that \<^verbatim>\<open>Setup\<close> and the prover touch (\<open>Vk_Qcp\<close> is the
  field \<^verbatim>\<open>Qcp\<close>, \<open>Vk_Generator\<close> the field \<^verbatim>\<open>Generator\<close>); the digests \<^verbatim>\<open>S\<close>,
  \<^verbatim>\<open>Ql\<close>, ..., \<^verbatim>\<open>Qk\<close> and the KZG verifying key are never read by the code embedded here.
  The SRS is the list of its G1 points.
\<close>

record 'a VerifyingKey =
  Size :: nat
  SizeInv :: 'a
  Vk_Generator :: 'a
  NbPublicVariables :: nat
  CosetShift :: 'a
  Vk_Qcp :: "'a list"
  Qpublic :: 'a
  CommitmentConstraintIndexes :: "nat list"

record 'a ProvingKey =
  Kzg :: "'a list"
  Vk :: "'a VerifyingKey"

definition initFFTDomain :: "'a Ext \<Rightarrow> 'a SparseR1CS \<Rightarrow> 'a Domain" where
  "initFFTDomain E spr =
     (let nbConstraints = length (Constraints spr);
          sizeSystem = nbConstraints + Public spr
      in NewDomain E sizeSystem)"

subsection \<open>buildPermutation\<close>

text \<open>
  The first part of \<^verbatim>\<open>buildPermutation\<close>: the table \<open>lro\<close> from positions of \<open>l\<parallel>r\<parallel>o\<close> to
  variable ids. The slice is zero-initialised, the placeholder rows of the public inputs
  get the ids \<open>0, 1, ...\<close> in the \<open>l\<close> column, and constraint \<open>j\<close> writes its three wire ids
  at \<open>offset + j\<close> in each column.
\<close>

definition build_lro :: "'a SparseR1CS \<Rightarrow> nat \<Rightarrow> nat list option" where
  "build_lro spr sizeSolution =
     (let sizePermutation = 3 * sizeSolution;
          lro = replicate sizePermutation (0 :: nat);
          offset = Public spr
      in do {
        lro \<leftarrow> foldM_opt (\<lambda>i lro. upd_opt lro i i) [0 ..< Public spr] lro;
        foldM_opt (\<lambda>(j, c) lro. do {
            lro \<leftarrow> upd_opt lro (offset + j) (XA c);
            lro \<leftarrow> upd_opt lro (sizeSolution + offset + j) (XB c);
            upd_opt lro (2 * sizeSolution + offset + j) (XC c)
          }) (enumerate 0 (Constraints spr)) lro
      })"

text \<open>
  The loop that links every position to the previous position of the same variable;
  \<open>cycle\<close> maps a variable id to the last position it was seen at (\<open>-1\<close>: not seen).
\<close>

definition link_step :: "nat list \<Rightarrow> nat \<Rightarrow> int list \<times> int list \<Rightarrow> (int list \<times> int list) option" where
  "link_step lro i = (\<lambda>(permutation, cycle). do {
      v \<leftarrow> nth_opt lro i;
      c \<leftarrow> nth_opt cycle v;
      permutation \<leftarrow> (if c \<noteq> -1 then upd_opt permutation i c else Some permutation);
      cycle \<leftarrow> upd_opt cycle v (int i);
      Some (permutation, cycle)
    })"

text \<open>The loop that completes the positions still holding \<open>-1\<close>.\<close>

definition complete_step :: "nat list \<Rightarrow> int list \<Rightarrow> nat \<Rightarrow> int list \<Rightarrow> int list option" where
  "complete_step lro cycle i permutation = do {
      p \<leftarrow> nth_opt permutation i;
      if p = -1 then do {
        v \<leftarrow> nth_opt lro i;
        c \<leftarrow> nth_opt cycle v;
        upd_opt permutation i c
      } else Some permutation
    }"

definition buildPermutation :: "'a SparseR1CS \<Rightarrow> 'a Trace \<Rightarrow> nat \<Rightarrow> 'a Trace option" where
  "buildPermutation spr trace nbVariables =
     (let sizeSolution = length (Ql trace);
          sizePermutation = 3 * sizeSolution;
          permutation = replicate sizePermutation (-1 :: int)
      in do {
        lro \<leftarrow> build_lro spr sizeSolution;
        let cycle = replicate nbVariables (-1 :: int);
        (permutation, cycle) \<leftarrow> foldM_opt (link_step lro) [0 ..< length lro] (permutation, cycle);
        permutation \<leftarrow> foldM_opt (complete_step lro cycle) [0 ..< sizePermutation] permutation;
        Some (trace\<lparr>S := permutation\<rparr>)
      })"

subsection \<open>The permutation polynomials\<close>

text \<open>
  \<open>expTable a g k\<close> is the run \<open>a, a\<cdot>g, a\<cdot>g\<^sup>2, ...\<close> of length \<open>k\<close>;
  \<^verbatim>\<open>getSupportPermutation\<close> fills the three thirds of its result with the runs that start
  at \<open>1\<close>, at the coset shift \<open>u\<close> and at \<open>u\<^sup>2\<close>. Reading \<open>res[0]\<close> of an empty slice panics.
\<close>

fun expTable :: "'a::field \<Rightarrow> 'a \<Rightarrow> nat \<Rightarrow> 'a list" where
  "expTable a g 0 = []"
| "expTable a g (Suc k) = a # expTable (a * g) g k"

definition getSupportPermutation :: "'a::field Domain \<Rightarrow> 'a list option" where
  "getSupportPermutation domain =
     (let n = Cardinality domain; u = FrMultiplicativeGen domain; g = Generator domain
      in if n = 0 then None
         else Some (expTable 1 g n @ expTable u g n @ expTable (u * u) g n))"

definition nth_int_opt :: "'a list \<Rightarrow> int \<Rightarrow> 'a option" where
  "nth_int_opt xs k = (if 0 \<le> k \<and> nat k < length xs then Some (xs ! nat k) else None)"

definition computePermutationPolynomials :: "'a::field Trace \<Rightarrow> 'a Domain \<Rightarrow> 'a list list option" where
  "computePermutationPolynomials trace domain =
     (let nbElmts = Cardinality domain;
          z = replicate nbElmts 0
      in do {
        evaluationIDSmallDomain \<leftarrow> getSupportPermutation domain;
        (s1, s2, s3) \<leftarrow> foldM_opt (\<lambda>i (s1, s2, s3). do {
            k1 \<leftarrow> nth_opt (S trace) i;
            e1 \<leftarrow> nth_int_opt evaluationIDSmallDomain k1;
            s1 \<leftarrow> upd_opt s1 i e1;
            k2 \<leftarrow> nth_opt (S trace) (nbElmts + i);
            e2 \<leftarrow> nth_int_opt evaluationIDSmallDomain k2;
            s2 \<leftarrow> upd_opt s2 i e2;
            k3 \<leftarrow> nth_opt (S trace) (2 * nbElmts + i);
            e3 \<leftarrow> nth_int_opt evaluationIDSmallDomain k3;
            s3 \<leftarrow> upd_opt s3 i e3;
            Some (s1, s2, s3)
          }) [0 ..< nbElmts] (z, z, z);
        Some [s1, s2, s3]
      })"

subsection \<open>NewTrace\<close>

definition placeholder_row ::
  "nat \<Rightarrow> 'a::field list \<times> 'a list \<times> 'a list \<times> 'a list \<times> 'a list
     \<Rightarrow> ('a list \<times> 'a list \<times> 'a list \<times> 'a list \<times> 'a list) option" where
  "placeholder_row i = (\<lambda>(ql, qr, qm, qo, qk). do {
      ql \<leftarrow> upd_opt ql i (- 1);
      qr \<leftarrow> upd_opt qr i 0;
      qm \<leftarrow> upd_opt qm i 0;
      qo \<leftarrow> upd_opt qo i 0;
      qk \<leftarrow> upd_opt qk i 0;
      Some (ql, qr, qm, qo, qk)
    })"

definition constraint_row ::
  "'a list \<Rightarrow> nat \<Rightarrow> nat \<times> SparseR1C
     \<Rightarrow> 'a list \<times> 'a list \<times> 'a list \<times> 'a list \<times> 'a list
     \<Rightarrow> ('a list \<times> 'a list \<times> 'a list \<times> 'a list \<times> 'a list) option" where
  "constraint_row coefficients offset = (\<lambda>(j, c) (ql, qr, qm, qo, qk). do {
      a \<leftarrow> nth_opt coefficients (QL c);
      ql \<leftarrow> upd_opt ql (offset + j) a;
      a \<leftarrow> nth_opt coefficients (QR c);
      qr \<leftarrow> upd_opt qr (offset + j) a;
      a \<leftarrow> nth_opt coefficients (QM c);
      qm \<leftarrow> upd_opt qm (offset + j) a;
      a \<leftarrow> nth_opt coefficients (QO c);
      qo \<leftarrow> upd_opt qo (offset + j) a;
      a \<leftarrow> nth_opt coefficients (QC c);
      qk \<leftarrow> upd_opt qk (offset + j) a;
      Some (ql, qr, qm, qo, qk)
    })"

definition qcp_row :: "PlonkCommitment list \<Rightarrow> nat \<Rightarrow> nat \<Rightarrow> nat \<Rightarrow> 'a::field list list \<Rightarrow> 'a list list option" where
  "qcp_row commitmentInfo sz offset i qcp = do {
      ci \<leftarrow> nth_opt commitmentInfo i;
      q \<leftarrow> foldM_opt (\<lambda>committed q. upd_opt q (offset + committed) 1) (Committed ci) (replicate sz 0);
      upd_opt qcp i q
    }"

definition NewTrace :: "'a::field Ext \<Rightarrow> 'a SparseR1CS \<Rightarrow> 'a Domain \<Rightarrow> 'a Trace option" where
  "NewTrace E spr domain =
     (let nbConstraints = length (Constraints spr);
          sizeSystem = nbConstraints + Public spr;
          sz = NextPowerOfTwo sizeSystem;
          commitmentInfo = CommitmentInfo spr;
          z = replicate sz 0;
          offset = Public spr
      in do {
        (ql, qr, qm, qo, qk) \<leftarrow> foldM_opt placeholder_row [0 ..< Public spr] (z, z, z, z, z);
        (ql, qr, qm, qo, qk) \<leftarrow>
          foldM_opt (constraint_row (Coefficients spr) offset) (enumerate 0 (Constraints spr))
            (ql, qr, qm, qo, qk);
        qcp \<leftarrow> foldM_opt (qcp_row commitmentInfo sz offset) [0 ..< length commitmentInfo]
                 (replicate (length commitmentInfo) []);
        let nbVariables = NbInternalVariables spr + Public spr + Secret spr;
        let trace = \<lparr>Ql = ql, Qr = qr, Qm = qm, Qo = qo, Qk = qk, Qcp = qcp,
                     S1 = [], S2 = [], S3 = [], S = []\<rparr>;
        trace \<leftarrow> buildPermutation spr trace nbVariables;
        s \<leftarrow> computePermutationPolynomials trace domain;
        Some (trace\<lparr>S1 := s ! 0, S2 := s ! 1, S3 := s ! 2\<rparr>)
      })"

subsection \<open>commitTrace and Setup\<close>

text \<open>
  The list of the setup polynomials in canonical regular form, in the order of the
  enumeration, and the interleaving loop of \<^verbatim>\<open>commitTrace\<close>.
\<close>

definition traceList :: "'a Ext \<Rightarrow> 'a Trace \<Rightarrow> 'a Domain \<Rightarrow> 'a list list" where
  "traceList E trace domain =
     [ext_ToCanonical E domain (Ql trace),
      ext_ToCanonical E domain (Qr trace),
      ext_ToCanonical E domain (Qm trace),
      ext_ToCanonical E domain (Qo trace),
      ext_ToCanonical E domain (Qk trace),
      ext_ToCanonical E domain (S1 trace),
      ext_ToCanonical E domain (S2 trace),
      ext_ToCanonical E domain (S3 trace)]
     @ map (ext_ToCanonical E domain) (Qcp trace)"

definition interleave_step :: "'a list list \<Rightarrow> nat \<Rightarrow> nat \<Rightarrow> nat \<Rightarrow> 'a list \<Rightarrow> 'a list option" where
  "interleave_step polys t i j buf = do {
      p \<leftarrow> nth_opt polys j;
      c \<leftarrow> nth_opt p i;
      upd_opt buf (i * t + j) c
    }"

definition commitTrace_t :: "'a Trace \<Rightarrow> nat" where
  "commitTrace_t trace = number_polynomials + 2 * length (Qcp trace)"

definition commitTrace_buf :: "'a::field Ext \<Rightarrow> 'a Trace \<Rightarrow> 'a Domain \<Rightarrow> 'a list option" where
  "commitTrace_buf E trace domain =
     (let currentNbPolynomials = setup_s3 + length (Qcp trace) + 1;
          polys = traceList E trace domain;
          t = commitTrace_t trace;
          sz = Cardinality domain;
          upperBoundSize = t * sz;
          buf = replicate upperBoundSize 0
      in foldM_opt (\<lambda>i buf. foldM_opt (interleave_step polys t i) [0 ..< currentNbPolynomials] buf)
           [0 ..< sz] buf)"

definition commitTrace ::
  "'a::field Ext \<Rightarrow> 'a VerifyingKey \<Rightarrow> 'a Trace \<Rightarrow> 'a Domain \<Rightarrow> 'a list \<Rightarrow> (error + 'a VerifyingKey) option" where
  "commitTrace E vk trace domain srsPk = do {
      buf \<leftarrow> commitTrace_buf E trace domain;
      Some (case kzg_Commit buf srsPk of
              Inl err \<Rightarrow> Inl err
            | Inr d \<Rightarrow> Inr (vk\<lparr>Qpublic := d\<rparr>))
    }"

definition Setup ::
  "'a::field Ext \<Rightarrow> 'a SparseR1CS \<Rightarrow> 'a list \<Rightarrow> (error + 'a ProvingKey \<times> 'a VerifyingKey) option" where
  "Setup E spr srs =
     (let vk = \<lparr>Size = 0, SizeInv = 0, Vk_Generator = 0, NbPublicVariables = 0, CosetShift = 0,
                Vk_Qcp = [], Qpublic = 0,
                CommitmentConstraintIndexes = map CommitmentIndex (CommitmentInfo spr)\<rparr>;
          domain = initFFTDomain E spr
      in if Cardinality domain < 2 then
           Some (Inl (ErrTooFewConstraints (length (Constraints spr))))
         else if length srs < Cardinality domain + 3 then
           Some (Inl (ErrSrsTooSmall (length srs) (Cardinality domain + 3)))
         else
           (let vk = vk\<lparr>CosetShift := FrMultiplicativeGen domain,
                        Size := Cardinality domain,
                        SizeInv := inverse (of_nat (Cardinality domain)),
                        Vk_Generator := Generator domain,
                        NbPublicVariables := Public spr\<rparr>
            in do {
              trace \<leftarrow> NewTrace E spr domain;
              r \<leftarrow> commitTrace E vk trace domain srs;
              Some (case r of
                      Inl err \<Rightarrow> Inl err
                    | Inr vk \<Rightarrow> Inr (\<lparr>Kzg = srs, Vk = vk\<rparr>, vk))
            }))"

section \<open>Blinding polynomials (prove.go)\<close>

text \<open>
  The blinding orders configured in the source: all four are \<open>-1\<close> (the orders 1, 1, 1, 2
  are commented out).
\<close>

definition order_blinding_L :: int where "order_blinding_L = -1"
definition order_blinding_R :: int where "order_blinding_R = -1"
definition order_blinding_O :: int where "order_blinding_O = -1"
definition order_blinding_Z :: int where "order_blinding_Z = -1"

definition id_Bl :: nat where "id_Bl = 0"
definition id_Br :: nat where "id_Br = 1"
definition id_Bo :: nat where "id_Bo = 2"
definition id_Bz :: nat where "id_Bz = 3"
definition nb_blinding_polynomials :: nat where "nb_blinding_polynomials = 4"

text \<open>
  \<^verbatim>\<open>getRandomPolynomial(n)\<close>. The random source is explicit: \<open>rand\<close> is the stream of values
  that \<^verbatim>\<open>SetRandom\<close> draws and \<open>k\<close> the number of values drawn so far; the function returns
  the coefficient slice handed to \<^verbatim>\<open>iop.NewPolynomial\<close> and the new position.

  The source declares \<^verbatim>\<open>var a []fr.Element\<close> (a nil slice) and, in the branch \<open>n = -1\<close>,
  executes \<^verbatim>\<open>a := make([]fr.Element, 1)\<close>: the short declaration introduces a second
  variable, local to the branch (\<open>a_inner\<close> below), and the outer \<open>a\<close>, the one the
  polynomial is built from, is not assigned. In the other branch \<^verbatim>\<open>make\<close> with a negative
  length panics.
\<close>

definition getRandomPolynomial :: "(nat \<Rightarrow> 'a::zero) \<Rightarrow> int \<Rightarrow> nat \<Rightarrow> ('a list \<times> nat) option" where
  "getRandomPolynomial rand n k =
     (let a = [] in
      if n = -1 then
        (let a_inner = [0 :: 'a] in Some (a, k))
      else if n + 1 < 0 then None
      else Some (map rand [k ..< k + nat (n + 1)], k + nat (n + 1)))"

text \<open>
  \<^verbatim>\<open>initBlindingPolynomials\<close>: the four polynomials \<open>bp[id_Bl]\<close>, \<open>bp[id_Br]\<close>, \<open>bp[id_Bo]\<close>,
  \<open>bp[id_Bz]\<close>, in this order.
\<close>

definition initBlindingPolynomials :: "(nat \<Rightarrow> 'a::zero) \<Rightarrow> nat \<Rightarrow> ('a list list \<times> nat) option" where
  "initBlindingPolynomials rand k0 =
     do {
       (bl, k1) \<leftarrow> getRandomPolynomial rand order_blinding_L k0;
       (br, k2) \<leftarrow> getRandomPolynomial rand order_blinding_R k1;
       (bo, k3) \<leftarrow> getRandomPolynomial rand order_blinding_O k2;
       (bz, k4) \<leftarrow> getRandomPolynomial rand order_blinding_Z k3;
       Some ([bl, br, bo, bz], k4)
     }"

section \<open>The prover (prove.go)\<close>

text \<open>The positions of the polynomials in \<open>s.x\<close>.\<close>

definition id_L :: nat where "id_L = 0"
definition id_R :: nat where "id_R = 1"
definition id_O :: nat where "id_O = 2"
definition id_Z :: nat where "id_Z = 3"
definition id_ZS :: nat where "id_ZS = 4"
definition id_Ql :: nat where "id_Ql = 5"
definition id_Qr :: nat where "id_Qr = 6"
definition id_Qm :: nat where "id_Qm = 7"
definition id_Qo :: nat where "id_Qo = 8"
definition id_Qk :: nat where "id_Qk = 9"
definition id_S1 :: nat where "id_S1 = 10"
definition id_S2 :: nat where "id_S2 = 11"
definition id_S3 :: nat where "id_S3 = 12"
definition id_ID :: nat where "id_ID = 13"
definition id_LOne :: nat where "id_LOne = 14"
definition id_Qci :: nat where "id_Qci = 15"

lemmas id_defs =
  id_L_def id_R_def id_O_def id_Z_def id_ZS_def id_Ql_def id_Qr_def id_Qm_def id_Qo_def
  id_Qk_def id_S1_def id_S2_def id_S3_def id_ID_def id_LOne_def id_Qci_def
  id_Bl_def id_Br_def id_Bo_def id_Bz_def

subsection \<open>The Fiat-Shamir transcript\<close>

text \<open>
  The transcript collaborator (\<^verbatim>\<open>fiatshamir.Transcript\<close> of gnark-crypto) is the log of the
  calls made on it: \<open>FsBind label d\<close> for \<^verbatim>\<open>Bind(label, bytes of d)\<close> and
  \<open>FsChallenge label\<close> for \<^verbatim>\<open>ComputeChallenge(label)\<close>. The value of a challenge is a
  function \<open>chal\<close> of the log up to and including its computation (the collaborator is
  deterministic given the sequence of bindings). What is bound is either the public data
  (verifying key and public inputs) or a commitment.
\<close>

datatype 'a fs_data = PublicData "'a VerifyingKey" "'a list" | Point 'a

datatype 'a fs_event = FsBind string "'a fs_data" | FsChallenge string

record 'a Transcript =
  fs_labels :: "string list"
  fs_log :: "'a fs_event list"

definition NewTranscript :: "string list \<Rightarrow> 'a Transcript" where
  "NewTranscript labels = \<lparr>fs_labels = labels, fs_log = []\<rparr>"

definition fs_Bind :: "'a Transcript \<Rightarrow> string \<Rightarrow> 'a fs_data \<Rightarrow> 'a Transcript" where
  "fs_Bind fs label d = fs\<lparr>fs_log := fs_log fs @ [FsBind label d]\<rparr>"

definition fs_ComputeChallenge ::
  "('a fs_event list \<Rightarrow> 'a) \<Rightarrow> 'a Transcript \<Rightarrow> string \<Rightarrow> 'a Transcript \<times> 'a" where
  "fs_ComputeChallenge chal fs label =
     (let events = fs_log fs @ [FsChallenge label] in (fs\<lparr>fs_log := events\<rparr>, chal events))"

text \<open>
  Modelled from the spec: \<^verbatim>\<open>bindPublicData\<close> and \<^verbatim>\<open>deriveRandomness\<close> are functions of
  the package that are not among the source files. The spec (4.3): "Before deriving \<open>\<gamma>\<close>,
  bind all public-input values and verifying-key material", and each derivation binds its
  commitments and takes the transcript's output: \<open>bindPublicData\<close> binds the verifying key
  and the public inputs under the given label, \<open>deriveRandomness\<close> binds the given
  commitments in order under the label and then computes the challenge of that label.
\<close>

definition bindPublicData ::
  "'a Transcript \<Rightarrow> string \<Rightarrow> 'a VerifyingKey \<Rightarrow> 'a list \<Rightarrow> 'a Transcript" where
  "bindPublicData fs challenge vk publicInputs = fs_Bind fs challenge (PublicData vk publicInputs)"

definition deriveRandomness ::
  "('a fs_event list \<Rightarrow> 'a) \<Rightarrow> 'a Transcript \<Rightarrow> string \<Rightarrow> 'a list \<Rightarrow> 'a Transcript \<times> 'a" where
  "deriveRandomness chal fs challenge points =
     fs_ComputeChallenge chal (fold (\<lambda>p fs. fs_Bind fs challenge (Point p)) points fs) challenge"

subsection \<open>The proof and the prover instance\<close>

text \<open>
  The fields of \<^verbatim>\<open>Proof\<close> (\<open>ProofZ\<close> is the field \<^verbatim>\<open>Z\<close>; the batch opening proof is the
  result of the collaborator \<^verbatim>\<open>fflonk.BatchOpen\<close> and is not a field here) and of
  \<^verbatim>\<open>instance\<close> (the record \<open>prover_instance\<close>; the field \<^verbatim>\<open>f\<close> of the receiver \<^verbatim>\<open>s\<close> is \<open>s_f\<close>). A polynomial that is
  not set yet (a nil pointer) is the empty list. The channels are not fields: a stage is
  a function of the instance, and the order in which the stages are applied is the order
  the channels impose.
\<close>

record 'a Proof =
  LROEntangled :: 'a
  ProofZ :: 'a
  ZEntangled :: 'a
  HEntangled :: 'a
  Bsb22Commitments :: "'a list"

record 'a prover_instance =
  s_pk :: "'a ProvingKey"
  s_proof :: "'a Proof"
  s_spr :: "'a SparseR1CS"
  s_fs :: "'a Transcript"
  s_x :: "'a list list"
  s_bp :: "'a list list"
  s_h :: "'a list"
  s_fullWitness :: "'a list"
  s_commitmentInfo :: "PlonkCommitment list"
  s_commitmentVal :: "'a list"
  s_cCommitments :: "'a list list"
  s_gamma :: 'a
  s_beta :: 'a
  s_alpha :: 'a
  s_zeta :: 'a
  s_domain0 :: "'a Domain"
  s_domain1 :: "'a Domain"
  s_trace :: "'a Trace"

definition newInstance ::
  "'a::field Ext \<Rightarrow> 'a SparseR1CS \<Rightarrow> 'a ProvingKey \<Rightarrow> 'a list \<Rightarrow> 'a prover_instance option" where
  "newInstance E spr pk fullWitness =
     (let commitmentInfo = CommitmentInfo spr;
          nbConstraints = length (Constraints spr);
          sizeSystem = nbConstraints + Public spr;
          domain0 = NewDomain E sizeSystem;
          domain1 = (if sizeSystem < 6 then NewDomain E (8 * sizeSystem)
                     else NewDomain E (4 * sizeSystem))
      in do {
        trace \<leftarrow> NewTrace E spr domain0;
        Some \<lparr>s_pk = pk,
              s_proof = \<lparr>LROEntangled = 0, ProofZ = 0, ZEntangled = 0, HEntangled = 0,
                         Bsb22Commitments = replicate (length commitmentInfo) 0\<rparr>,
              s_spr = spr,
              s_fs = NewTranscript [''gamma'', ''beta'', ''alpha'', ''zeta''],
              s_x = replicate (id_Qci + 2 * length commitmentInfo) [],
              s_bp = replicate nb_blinding_polynomials [],
              s_h = [],
              s_fullWitness = fullWitness,
              s_commitmentInfo = commitmentInfo,
              s_commitmentVal = replicate (length commitmentInfo) 0,
              s_cCommitments = replicate (length commitmentInfo) [],
              s_gamma = 0, s_beta = 0, s_alpha = 0, s_zeta = 0,
              s_domain0 = domain0, s_domain1 = domain1, s_trace = trace\<rparr>
      })"

subsection \<open>Challenges\<close>

text \<open>
  A slice expression \<^verbatim>\<open>xs[a:b]\<close> panics unless \<open>a \<le> b \<le> cap(xs)\<close>; the slices sliced
  here are created with their capacity equal to their length.
\<close>

definition slice_opt :: "'a list \<Rightarrow> nat \<Rightarrow> nat \<Rightarrow> 'a list option" where
  "slice_opt xs a b = (if a \<le> b \<and> b \<le> length xs then Some (take (b - a) (drop a xs)) else None)"

definition deriveGammaAndBeta ::
  "('a fs_event list \<Rightarrow> 'a) \<Rightarrow> 'a prover_instance \<Rightarrow> 'a prover_instance option" where
  "deriveGammaAndBeta chal s = do {
      publicInputs \<leftarrow> slice_opt (s_fullWitness s) 0 (Public (s_spr s));
      let fs = bindPublicData (s_fs s) ''gamma'' (Vk (s_pk s)) publicInputs;
      let (fs, gamma) = deriveRandomness chal fs ''gamma'' [LROEntangled (s_proof s)];
      let (fs, bbeta) = fs_ComputeChallenge chal fs ''beta'';
      Some (s\<lparr>s_fs := fs, s_gamma := gamma, s_beta := bbeta\<rparr>)
    }"

definition deriveAlpha :: "('a fs_event list \<Rightarrow> 'a) \<Rightarrow> 'a prover_instance \<Rightarrow> 'a prover_instance" where
  "deriveAlpha chal s =
     (let alphaDeps = Bsb22Commitments (s_proof s) @ [ZEntangled (s_proof s)];
          (fs, alpha) = deriveRandomness chal (s_fs s) ''alpha'' alphaDeps
      in s\<lparr>s_fs := fs, s_alpha := alpha\<rparr>)"

definition deriveZeta :: "('a fs_event list \<Rightarrow> 'a) \<Rightarrow> 'a prover_instance \<Rightarrow> 'a prover_instance" where
  "deriveZeta chal s =
     (let (fs, zeta) = deriveRandomness chal (s_fs s) ''zeta'' [HEntangled (s_proof s)]
      in s\<lparr>s_fs := fs, s_zeta := zeta\<rparr>)"

subsection \<open>The quotient chunks\<close>

definition h1 :: "'a prover_instance \<Rightarrow> 'a list option" where
  "h1 s = slice_opt (s_h s) 0 (Cardinality (s_domain0 s) + 2)"

definition h2 :: "'a prover_instance \<Rightarrow> 'a list option" where
  "h2 s = slice_opt (s_h s) (Cardinality (s_domain0 s) + 2) (2 * (Cardinality (s_domain0 s) + 2))"

definition h3 :: "'a prover_instance \<Rightarrow> 'a list option" where
  "h3 s = slice_opt (s_h s) (2 * (Cardinality (s_domain0 s) + 2)) (3 * (Cardinality (s_domain0 s) + 2))"

text \<open>
  \<^verbatim>\<open>Evaluate\<close> of a polynomial in canonical regular form (gnark-crypto): Horner's rule from
  the last coefficient down.
\<close>

definition evalPoly :: "'a::field list \<Rightarrow> 'a \<Rightarrow> 'a" where
  "evalPoly cs x = foldr (\<lambda>c r. r * x + c) cs 0"

subsection \<open>Entangled commitments\<close>

text \<open>
  The loop that builds a sub-key: \<open>subPk.G1\<close> is created with \<open>len\<close> points and the loop
  writes \<open>key[i\<cdot>t + id]\<close> at \<open>i\<close> for \<open>i < cnt\<close>.
\<close>

definition subKey :: "'a::field list \<Rightarrow> nat \<Rightarrow> nat \<Rightarrow> nat \<Rightarrow> nat \<Rightarrow> 'a list option" where
  "subKey G1 t ident len cnt =
     foldM_opt (\<lambda>i sub. do { g \<leftarrow> nth_opt G1 (i * t + ident); upd_opt sub i g })
       [0 ..< cnt] (replicate len 0)"

definition commitBlindingFactor :: "nat \<Rightarrow> 'a::field list \<Rightarrow> 'a list \<Rightarrow> 'a option" where
  "commitBlindingFactor n b key =
     (let cp = b; np = length b in do {
        lo \<leftarrow> slice_opt key 0 np;
        let tmp = MultiExp lo cp;
        hi \<leftarrow> slice_opt key n (n + np);
        let res = MultiExp hi cp;
        Some (res - tmp)
      })"

text \<open>
  \<^verbatim>\<open>getNextDivisorRMinusOne\<close> is a function of the package that is not among the source
  files; it is the parameter \<open>nd\<close> of every function that calls it.

  \<^verbatim>\<open>commitToEntangledPolyAndBlinding\<close> returns the commitment together with the error of
  \<^verbatim>\<open>kzg.Commit\<close>, in which case the commitment is the zero digest plus the blinding
  contribution. (The polynomial is put in canonical form for the commitment and back in
  Lagrange form afterwards.)
\<close>

definition commitToEntangledPolyAndBlinding ::
  "'a::field Ext \<Rightarrow> ('a VerifyingKey \<Rightarrow> nat) \<Rightarrow> 'a prover_instance \<Rightarrow> 'a list \<Rightarrow> 'a list \<Rightarrow> nat
     \<Rightarrow> ('a \<times> error option) option" where
  "commitToEntangledPolyAndBlinding E nd s p b ident =
     (let pc = ext_ToCanonical E (s_domain0 s) p;
          t = nd (Vk (s_pk s))
      in do {
        subPk \<leftarrow> subKey (Kzg (s_pk s)) t ident (length pc) (length pc);
        let r = kzg_Commit pc subPk;
        let n = Cardinality (s_domain0 s);
        cb \<leftarrow> commitBlindingFactor n b (Kzg (s_pk s));
        Some (case r of Inl err \<Rightarrow> (0 + cb, Some err) | Inr commit \<Rightarrow> (commit + cb, None))
      })"

subsection \<open>commitToLRO\<close>

text \<open>
  \<^verbatim>\<open>commitToLRO\<close> starts three goroutines with \<^verbatim>\<open>g.Go\<close>, each of which assigns one of the
  local variables \<open>l\<close>, \<open>r\<close>, \<open>o\<close> (zero digests when declared); the calling goroutine then
  executes the statement that adds \<open>l\<close>, \<open>r\<close> and \<open>o\<close> into \<open>proof.LROEntangled\<close>, and
  only after it \<^verbatim>\<open>g.Wait()\<close>. The threads are interleaved by a schedule, the list of
  the threads in the order in which they take their steps: a goroutine has one step (it
  assigns its variable and records its error in the group), the caller has two (the
  addition, then the return from \<^verbatim>\<open>Wait\<close>, enabled once the three goroutines are done).
\<close>

datatype thread = MainT | GoL | GoR | GoO

record 'a lro_vars =
  var_l :: 'a
  var_r :: 'a
  var_o :: 'a
  done_l :: bool
  done_r :: bool
  done_o :: bool
  group_err :: "error option"
  main_pc :: nat
  entangled :: 'a

definition first_err :: "error option \<Rightarrow> error option \<Rightarrow> error option" where
  "first_err old new = (case old of None \<Rightarrow> new | Some e \<Rightarrow> Some e)"

fun lro_step ::
  "'a::field \<times> error option \<Rightarrow> 'a \<times> error option \<Rightarrow> 'a \<times> error option
     \<Rightarrow> thread \<Rightarrow> 'a lro_vars \<Rightarrow> 'a lro_vars option" where
  "lro_step cl cr co GoL st =
     (if done_l st then None
      else Some (st\<lparr>var_l := fst cl, done_l := True, group_err := first_err (group_err st) (snd cl)\<rparr>))"
| "lro_step cl cr co GoR st =
     (if done_r st then None
      else Some (st\<lparr>var_r := fst cr, done_r := True, group_err := first_err (group_err st) (snd cr)\<rparr>))"
| "lro_step cl cr co GoO st =
     (if done_o st then None
      else Some (st\<lparr>var_o := fst co, done_o := True, group_err := first_err (group_err st) (snd co)\<rparr>))"
| "lro_step cl cr co MainT st =
     (if main_pc st = 0 then
        Some (st\<lparr>entangled := var_l st + var_r st + var_o st, main_pc := 1\<rparr>)
      else if main_pc st = 1 \<and> done_l st \<and> done_r st \<and> done_o st then
        Some (st\<lparr>main_pc := 2\<rparr>)
      else None)"

definition lro_init :: "'a::field lro_vars" where
  "lro_init = \<lparr>var_l = 0, var_r = 0, var_o = 0, done_l = False, done_r = False, done_o = False,
               group_err = None, main_pc = 0, entangled = 0\<rparr>"

text \<open>
  \<^verbatim>\<open>commitToLRO\<close> under a schedule: the instance with \<open>proof.LROEntangled\<close> set, and the
  error that \<^verbatim>\<open>g.Wait()\<close> returns. \<open>None\<close> is a panic, or a schedule that is not a complete
  execution (a thread scheduled when it cannot step, or the caller not returned at the end).
  (The function starts once the blinding polynomials are initialised.)
\<close>

definition commitToLRO ::
  "'a::field Ext \<Rightarrow> ('a VerifyingKey \<Rightarrow> nat) \<Rightarrow> 'a prover_instance \<Rightarrow> thread list
     \<Rightarrow> ('a prover_instance \<times> error option) option" where
  "commitToLRO E nd s schedule =
     (let offsetQcp = length (Vk_Qcp (Vk (s_pk s))) in do {
        xl \<leftarrow> nth_opt (s_x s) id_L;
        bl \<leftarrow> nth_opt (s_bp s) id_Bl;
        cl \<leftarrow> commitToEntangledPolyAndBlinding E nd s xl bl (prover_l + offsetQcp);
        xr \<leftarrow> nth_opt (s_x s) id_R;
        br \<leftarrow> nth_opt (s_bp s) id_Br;
        cr \<leftarrow> commitToEntangledPolyAndBlinding E nd s xr br (prover_r + offsetQcp);
        xo \<leftarrow> nth_opt (s_x s) id_O;
        bo \<leftarrow> nth_opt (s_bp s) id_Bo;
        co \<leftarrow> commitToEntangledPolyAndBlinding E nd s xo bo (prover_o + offsetQcp);
        st \<leftarrow> foldM_opt (lro_step cl cr co) schedule lro_init;
        if main_pc st = 2 then
          Some (s\<lparr>s_proof := (s_proof s)\<lparr>LROEntangled := entangled st\<rparr>\<rparr>, group_err st)
        else None
      })"

subsection \<open>commitToQuotient\<close>

text \<open>
  The three commitments are computed by three goroutines and added after \<^verbatim>\<open>g.Wait()\<close>
  has returned. The loops that build the sub-keys of \<open>h2\<close> and \<open>h3\<close> run to the length of
  \<open>h1\<close>.
\<close>

definition commitToQuotient_t :: "'a VerifyingKey \<Rightarrow> nat" where
  "commitToQuotient_t vk = number_polynomials + 2 * length (Vk_Qcp vk)"

definition commitToQuotient ::
  "'a::field prover_instance \<Rightarrow> 'a list \<Rightarrow> 'a list \<Rightarrow> 'a list \<Rightarrow> 'a list
     \<Rightarrow> ('a prover_instance \<times> error option) option" where
  "commitToQuotient s c1 c2 c3 kzgPk =
     (let t = commitToQuotient_t (Vk (s_pk s));
          lenQcp = length (Vk_Qcp (Vk (s_pk s)));
          rh1 = lenQcp + prover_h_1;
          rh2 = lenQcp + prover_h_2;
          rh3 = lenQcp + prover_h_3
      in do {
        sub1 \<leftarrow> subKey kzgPk t rh1 (length c1) (length c1);
        sub2 \<leftarrow> subKey kzgPk t rh2 (length c2) (length c1);
        sub3 \<leftarrow> subKey kzgPk t rh3 (length c3) (length c1);
        let (commitmentH1, e1) = (case kzg_Commit c1 sub1 of Inl e \<Rightarrow> (0, Some e) | Inr d \<Rightarrow> (d, None));
        let (commitmentH2, e2) = (case kzg_Commit c2 sub2 of Inl e \<Rightarrow> (0, Some e) | Inr d \<Rightarrow> (d, None));
        let (commitmentH3, e3) = (case kzg_Commit c3 sub3 of Inl e \<Rightarrow> (0, Some e) | Inr d \<Rightarrow> (d, None));
        let err = first_err (first_err e1 e2) e3;
        Some (s\<lparr>s_proof := (s_proof s)\<lparr>HEntangled := commitmentH1 + commitmentH2 + commitmentH3\<rparr>\<rparr>, err)
      })"

subsection \<open>batchOpening\<close>

text \<open>
  \<^verbatim>\<open>getBlindedCoefficients\<close>: the coefficients of \<open>p\<close> followed by those of the blinding
  polynomial, the first \<open>|bp|\<close> of them decreased by the coefficients of \<open>bp\<close> (the slice
  of \<open>p\<close> has no spare capacity, so \<^verbatim>\<open>append\<close> copies it).
\<close>

definition getBlindedCoefficients :: "'a::field list \<Rightarrow> 'a list \<Rightarrow> 'a list" where
  "getBlindedCoefficients p bp =
     (let cp = p; cbp = bp; cp = cp @ cbp
      in fold (\<lambda>i cp. cp[i := cp ! i - cbp ! i]) [0 ..< length cbp] cp)"

text \<open>
  The arguments that \<^verbatim>\<open>batchOpening\<close> prepares for the collaborator \<^verbatim>\<open>fflonk.BatchOpen\<close>:
  the two sets of polynomials, the two folded digests and the two sets of points.
\<close>

definition batchOpening_args ::
  "'a::field Ext \<Rightarrow> ('a VerifyingKey \<Rightarrow> nat) \<Rightarrow> 'a prover_instance
     \<Rightarrow> ('a list list list \<times> 'a list \<times> 'a list list) option" where
  "batchOpening_args E nd s =
     (let vk = Vk (s_pk s);
          pr = s_proof s;
          tr = s_trace s;
          canon = ext_ToCanonical E (s_domain0 s);
          fd0 = fold (\<lambda>c d. d + c) (Bsb22Commitments pr)
                  (Qpublic vk + LROEntangled pr + ZEntangled pr + HEntangled pr);
          fd1 = ProofZ pr;
          t = nd vk;
          offset = length (Qcp tr)
      in do {
        p0 \<leftarrow> upd_opt (replicate t []) setup_ql (canon (Ql tr));
        p0 \<leftarrow> upd_opt p0 setup_qr (canon (Qr tr));
        p0 \<leftarrow> upd_opt p0 setup_qm (canon (Qm tr));
        p0 \<leftarrow> upd_opt p0 setup_qo (canon (Qo tr));
        p0 \<leftarrow> upd_opt p0 setup_qk_incomplete (canon (Qk tr));
        p0 \<leftarrow> upd_opt p0 setup_s1 (canon (S1 tr));
        p0 \<leftarrow> upd_opt p0 setup_s2 (canon (S2 tr));
        p0 \<leftarrow> upd_opt p0 setup_s3 (canon (S3 tr));
        p0 \<leftarrow> foldM_opt (\<lambda>i p0. do {
                 q \<leftarrow> nth_opt (Qcp tr) i;
                 upd_opt p0 (setup_s3 + 1 + i) (canon q)
               }) [0 ..< length (Qcp tr)] p0;
        xl \<leftarrow> nth_opt (s_x s) id_L;
        bl \<leftarrow> nth_opt (s_bp s) id_Bl;
        p0 \<leftarrow> upd_opt p0 (prover_l + offset) (getBlindedCoefficients xl bl);
        xr \<leftarrow> nth_opt (s_x s) id_R;
        br \<leftarrow> nth_opt (s_bp s) id_Br;
        p0 \<leftarrow> upd_opt p0 (prover_r + offset) (getBlindedCoefficients xr br);
        xo \<leftarrow> nth_opt (s_x s) id_O;
        bo \<leftarrow> nth_opt (s_bp s) id_Bo;
        p0 \<leftarrow> upd_opt p0 (prover_o + offset) (getBlindedCoefficients xo bo);
        xz \<leftarrow> nth_opt (s_x s) id_Z;
        bz \<leftarrow> nth_opt (s_bp s) id_Bz;
        p0 \<leftarrow> upd_opt p0 (prover_z + offset) (getBlindedCoefficients xz bz);
        c1 \<leftarrow> h1 s;
        p0 \<leftarrow> upd_opt p0 (prover_h_1 + offset) c1;
        c2 \<leftarrow> h2 s;
        p0 \<leftarrow> upd_opt p0 (prover_h_2 + offset) c2;
        c3 \<leftarrow> h3 s;
        p0 \<leftarrow> upd_opt p0 (prover_h_3 + offset) c3;
        p0 \<leftarrow> foldM_opt (\<lambda>i p0. do {
                 q \<leftarrow> nth_opt (s_x s) (id_Qci + 2 * i + 1);
                 upd_opt p0 (number_polynomials + offset + i) (canon q)
               }) [0 ..< length (Qcp tr)] p0;
        let p1 = [getBlindedCoefficients xz bz];
        let omegaZetaT = s_zeta s ^ t * Generator (s_domain0 s);
        Some ([p0, p1], [fd0, fd1], [[s_zeta s], [omegaZetaT]])
      })"

text \<open>
  \<^verbatim>\<open>batchOpening\<close> hands these arguments and the key to the collaborator
  \<^verbatim>\<open>fflonk.BatchOpen\<close> (the parameter \<open>BatchOpen\<close>) and returns what it returns.
\<close>

definition batchOpening ::
  "'a::field Ext \<Rightarrow> ('a VerifyingKey \<Rightarrow> nat)
     \<Rightarrow> ('a list list list \<Rightarrow> 'a list \<Rightarrow> 'a list list \<Rightarrow> 'a list \<Rightarrow> error + 'b)
     \<Rightarrow> 'a prover_instance \<Rightarrow> (error + 'b) option" where
  "batchOpening E nd BatchOpen s = do {
      (polysToOpen, foldedDigests, points) \<leftarrow> batchOpening_args E nd s;
      Some (BatchOpen polysToOpen foldedDigests points (Kzg (s_pk s)))
    }"

subsection \<open>The scaling of the blinding polynomials in computeNumerator\<close>

text \<open>
  \<open>scale_acc acc w cq\<close> is the loop \<^verbatim>\<open>for j: cq[j] *= acc; acc *= w\<close>; \<^verbatim>\<open>scalePowers\<close> is
  this loop started at \<open>acc = 1\<close>.
\<close>

fun scale_acc :: "'a::field \<Rightarrow> 'a \<Rightarrow> 'a list \<Rightarrow> 'a list" where
  "scale_acc acc w [] = []"
| "scale_acc acc w (c # cq) = (c * acc) # scale_acc (acc * w) w cq"

definition scalePowers :: "'a::field list \<Rightarrow> 'a \<Rightarrow> 'a list" where
  "scalePowers p w = scale_acc 1 w p"

text \<open>
  The slice \<open>shifters\<close> of length \<open>\<rho>\<close>: the coset shift of the large domain first, its
  generator in every other place. Writing \<open>shifters[0]\<close> of an empty slice panics.
\<close>

definition make_shifters :: "'a Domain \<Rightarrow> nat \<Rightarrow> 'a list option" where
  "make_shifters domain1 rho =
     (if rho = 0 then None
      else Some (FrMultiplicativeGen domain1 # replicate (rho - 1) (Generator domain1)))"

text \<open>
  What one pass of the loop over the cosets does to the current coset shifter and to the
  blinding polynomials: they are scaled by \<open>(coset\<^sup>n - 1) \<cdot> shifter\<^sup>j\<close> before the constraints
  are evaluated and by the inverse of \<open>coset\<^sup>n - 1\<close> afterwards (\<^verbatim>\<open>Inverse\<close> of zero is
  zero, as \<open>inverse\<close> of a field).
\<close>

definition blinding_pass ::
  "nat \<Rightarrow> 'a::field list \<Rightarrow> nat \<Rightarrow> 'a \<times> 'a list list \<Rightarrow> ('a \<times> 'a list list) option" where
  "blinding_pass n shifters i = (\<lambda>(coset, bp). do {
      sh \<leftarrow> nth_opt shifters i;
      let coset = coset * sh;
      let tmp = coset ^ n - 1;
      let bp = map (scale_acc tmp sh) bp;
      let tmp = inverse tmp;
      let bp = map (map (\<lambda>c. c * tmp)) bp;
      Some (coset, bp)
    })"

text \<open>
  The blinding polynomials at the end of \<^verbatim>\<open>computeNumerator\<close>, after the task that scales
  everything back: \<open>\<rho>\<close> passes, then \<^verbatim>\<open>scalePowers\<close> by the inverse of the product of the
  shifters. The integer division by \<open>n = 0\<close> panics.
\<close>

definition computeNumerator_bp :: "'a::field prover_instance \<Rightarrow> 'a list list option" where
  "computeNumerator_bp s =
     (let n = Cardinality (s_domain0 s) in
      if n = 0 then None
      else do {
        let rho = Cardinality (s_domain1 s) div n;
        shifters \<leftarrow> make_shifters (s_domain1 s) rho;
        (coset, bp) \<leftarrow> foldM_opt (blinding_pass n shifters) [0 ..< rho] (1, s_bp s);
        let cs = inverse (fold (\<lambda>sh cs. cs * sh) (tl shifters) (hd shifters));
        Some (map (\<lambda>q. scalePowers q cs) bp)
      })"

section \<open>Notions used to state the properties\<close>

text \<open>
  \<open>lro_content spr n j k\<close> is the variable id at position \<open>k\<close> of \<open>l\<parallel>r\<parallel>o\<close> once the
  placeholder rows and the first \<open>j\<close> constraints are written: position \<open>k\<close> of the \<open>l\<close>
  column of a placeholder row refers to the public variable \<open>k\<close>, row \<open>Public + i\<close> of the
  three columns refers to the wires \<open>XA\<close>, \<open>XB\<close>, \<open>XC\<close> of constraint \<open>i\<close>, and every
  other position holds the zero the slice was created with.

  \<open>cycle_links L s\<close>: every position \<open>i\<close> is linked by \<open>s\<close> to the nearest earlier position
  of the same variable or, when \<open>i\<close> is the first position of its variable, to the last
  one. \<open>last_rel L k v x\<close>: among the first \<open>k\<close> positions, \<open>x\<close> is the last position of
  variable \<open>v\<close>, or \<open>-1\<close> when there is none. \<open>link_inv\<close> and \<open>complete_inv\<close> are the
  invariants of the two loops of \<^verbatim>\<open>buildPermutation\<close>.
\<close>

definition cycle_links :: "nat list \<Rightarrow> (nat \<Rightarrow> nat) \<Rightarrow> bool" where
  "cycle_links L s \<longleftrightarrow>
     (\<forall>i<length L.
        (s i < i \<and> L ! (s i) = L ! i \<and> (\<forall>q. s i < q \<and> q < i \<longrightarrow> L ! q \<noteq> L ! i))
      \<or> ((\<forall>j<i. L ! j \<noteq> L ! i) \<and> s i < length L \<and> L ! (s i) = L ! i
          \<and> (\<forall>q. s i < q \<and> q < length L \<longrightarrow> L ! q \<noteq> L ! i)))"

definition last_rel :: "nat list \<Rightarrow> nat \<Rightarrow> nat \<Rightarrow> int \<Rightarrow> bool" where
  "last_rel L k v x \<longleftrightarrow>
     (x = -1 \<and> (\<forall>j<k. L ! j \<noteq> v))
     \<or> (\<exists>p<k. x = int p \<and> L ! p = v \<and> (\<forall>q. p < q \<and> q < k \<longrightarrow> L ! q \<noteq> v))"

definition link_inv :: "nat list \<Rightarrow> nat \<Rightarrow> nat \<Rightarrow> int list \<times> int list \<Rightarrow> bool" where
  "link_inv L nv k = (\<lambda>(perm, cycle).
     length perm = length L \<and> length cycle = nv
     \<and> (\<forall>i<length L. k \<le> i \<longrightarrow> perm ! i = -1)
     \<and> (\<forall>i<k. last_rel L i (L ! i) (perm ! i))
     \<and> (\<forall>v<nv. last_rel L k v (cycle ! v)))"

definition complete_inv :: "nat list \<Rightarrow> int list \<Rightarrow> int list \<Rightarrow> nat \<Rightarrow> int list \<Rightarrow> bool" where
  "complete_inv L perm1 cycle k perm \<longleftrightarrow>
     length perm = length L
     \<and> (\<forall>i<length L. perm ! i =
          (if i < k \<and> perm1 ! i = -1 then cycle ! (L ! i) else perm1 ! i))"

definition lro_content :: "'a SparseR1CS \<Rightarrow> nat \<Rightarrow> nat \<Rightarrow> nat \<Rightarrow> nat" where
  "lro_content spr n j k =
     (if k < Public spr then k
      else if k < Public spr + j then XA (Constraints spr ! (k - Public spr))
      else if n + Public spr \<le> k \<and> k < n + Public spr + j then XB (Constraints spr ! (k - (n + Public spr)))
      else if 2 * n + Public spr \<le> k \<and> k < 2 * n + Public spr + j then XC (Constraints spr ! (k - (2 * n + Public spr)))
      else 0)"

text \<open>
  \<open>scaled_by P q0 q\<close>: \<open>q\<close> is \<open>q0\<close> with coefficient \<open>j\<close> multiplied by \<open>P\<^sup>j\<close> (the state of a
  blinding polynomial between two passes, \<open>P\<close> the product of the shifters so far).
\<close>

definition scaled_by :: "'a::field \<Rightarrow> 'a list \<Rightarrow> 'a list \<Rightarrow> bool" where
  "scaled_by P q0 q \<longleftrightarrow> length q = length q0 \<and> (\<forall>j<length q0. q ! j = q0 ! j * P ^ j)"

section \<open>Reference instances for concrete evaluation\<close>

text \<open>
  The discrete inverse Fourier transform over the domain, the meaning of
  \<^verbatim>\<open>ToCanonical\<close> on a polynomial in regular Lagrange form. It instantiates the parameter
  \<open>ext_ToCanonical\<close> where a statement is evaluated at a concrete input.
\<close>

definition inverse_dft :: "'a::field Domain \<Rightarrow> 'a list \<Rightarrow> 'a list" where
  "inverse_dft d p =
     map (\<lambda>k. inverse (of_nat (length p)) *
               (\<Sum>j\<leftarrow>[0 ..< length p]. p ! j * inverse (Generator d) ^ (j * k)))
       [0 ..< length p]"

text \<open>
  The rationals with the generator \<open>-1\<close> of the domain of cardinality 2 and the coset
  shift 2.
\<close>

definition toy_ext :: "rat Ext" where
  "toy_ext = \<lparr>ext_Generator = (\<lambda>c. - 1), ext_FrMultiplicativeGen = 2,
              ext_ToCanonical = inverse_dft\<rparr>"

text \<open>
  The circuit \<open>x \<cdot> x = y\<close> with \<open>y\<close> public (variable 0) and \<open>x\<close> secret (variable 1):
  one placeholder row and one constraint \<open>1\<cdot>x\<cdot>x - 1\<cdot>y = 0\<close>, so the system has size 2.
  \<open>toy_circuit_commit\<close> is the same circuit with one custom-gate commitment.
\<close>

definition toy_circuit :: "rat SparseR1CS" where
  "toy_circuit =
     \<lparr>Public = 1, Secret = 1, NbInternalVariables = 0,
      Constraints = [\<lparr>XA = 1, XB = 1, XC = 0, QL = 0, QR = 0, QO = 2, QM = 1, QC = 0\<rparr>],
      Coefficients = [0, 1, - 1],
      CommitmentInfo = []\<rparr>"

definition toy_circuit_commit :: "rat SparseR1CS" where
  "toy_circuit_commit =
     toy_circuit\<lparr>CommitmentInfo := [\<lparr>Committed = [0], CommitmentIndex = 0\<rparr>]\<rparr>"

definition toy_domain :: "rat Domain" where
  "toy_domain = \<lparr>Cardinality = 2, Generator = - 1, FrMultiplicativeGen = 2\<rparr>"

definition toy_vk :: "rat VerifyingKey" where
  "toy_vk =
     \<lparr>Size = 2, SizeInv = 1 / 2, Vk_Generator = - 1, NbPublicVariables = 1, CosetShift = 2,
      Vk_Qcp = [], Qpublic = - (49 / 2), CommitmentConstraintIndexes = []\<rparr>"

definition toy_trace :: "rat Trace" where
  "toy_trace =
     \<lparr>Ql = [- 1, 0], Qr = [0, 0], Qm = [0, 1], Qo = [0, - 1], Qk = [0, 0], Qcp = [],
      S1 = [- 4, - 2], S2 = [1, - 1], S3 = [2, 4], S = [5, 3, 0, 1, 2, 4]\<rparr>"

text \<open>
  An SRS of 64 points, the keys that \<^verbatim>\<open>Setup\<close> returns for \<open>toy_circuit\<close> on it, the
  instance that \<^verbatim>\<open>newInstance\<close> creates for the witness \<open>y = 4, x = 2\<close>, and a quotient
  of 16 coefficients whose last four are zero.
\<close>

definition toy_srs :: "rat list" where
  "toy_srs = map of_nat [1 ..< 65]"

definition toy_pk :: "rat ProvingKey" where
  "toy_pk = \<lparr>Kzg = toy_srs, Vk = toy_vk\<rparr>"

definition toy_instance :: "rat prover_instance" where
  "toy_instance =
     \<lparr>s_pk = toy_pk,
      s_proof = \<lparr>LROEntangled = 0, ProofZ = 0, ZEntangled = 0, HEntangled = 0,
                 Bsb22Commitments = []\<rparr>,
      s_spr = toy_circuit,
      s_fs = \<lparr>fs_labels = [''gamma'', ''beta'', ''alpha'', ''zeta''], fs_log = []\<rparr>,
      s_x = [[], [], [], [], [], [], [], [], [], [], [], [], [], [], []],
      s_bp = [[], [], [], []],
      s_h = [],
      s_fullWitness = [4, 2],
      s_commitmentInfo = [],
      s_commitmentVal = [],
      s_cCommitments = [],
      s_gamma = 0, s_beta = 0, s_alpha = 0, s_zeta = 0,
      s_domain0 = toy_domain,
      s_domain1 = \<lparr>Cardinality = 16, Generator = - 1, FrMultiplicativeGen = 2\<rparr>,
      s_trace = toy_trace\<rparr>"

definition toy_h :: "rat list" where
  "toy_h = [1, 2, 3, 4, 5, 6, 7, 8, 9, 10, 11, 12, 0, 0, 0, 0]"

text \<open>
  A stand-in for the transcript's hash (the number of calls made so far) and the proof as
  it stands when \<open>gamma\<close>, \<open>alpha\<close> and \<open>zeta\<close> are derived.
\<close>

definition toy_chal :: "rat fs_event list \<Rightarrow> rat" where
  "toy_chal events = of_nat (length events)"

definition toy_proof1 :: "rat Proof" where
  "toy_proof1 = \<lparr>LROEntangled = 7, ProofZ = 0, ZEntangled = 0, HEntangled = 0,
                  Bsb22Commitments = []\<rparr>"

definition toy_proof2 :: "rat Proof" where
  "toy_proof2 = \<lparr>LROEntangled = 7, ProofZ = 9, ZEntangled = 8, HEntangled = 0,
                  Bsb22Commitments = []\<rparr>"

definition toy_proof3 :: "rat Proof" where
  "toy_proof3 = \<lparr>LROEntangled = 7, ProofZ = 9, ZEntangled = 8, HEntangled = 11,
                  Bsb22Commitments = []\<rparr>"

text \<open>
  The instance once the constraints are solved (the columns \<open>L = [4, 2]\<close>, \<open>R = [0, 2]\<close>,
  \<open>O = [0, 4]\<close> of the solution in \<open>s.x\<close>; the blinding polynomials are the empty ones the
  configured orders give), and the trace and the verifying key of \<open>toy_circuit_commit\<close>.
\<close>

definition toy_solved :: "rat prover_instance" where
  "toy_solved =
     toy_instance\<lparr>s_x := [[4, 2], [0, 2], [0, 4], [], [], [], [], [], [], [], [], [], [], [], []]\<rparr>"

definition toy_trace_commit :: "rat Trace" where
  "toy_trace_commit = toy_trace\<lparr>Qcp := [[0, 1]]\<rparr>"

definition toy_vk_commit :: "rat VerifyingKey" where
  "toy_vk_commit = toy_vk\<lparr>Qpublic := - 36, CommitmentConstraintIndexes := [0]\<rparr>"

text \<open>
  The instance when \<^verbatim>\<open>batchOpening\<close> runs: \<open>Z = [1, 3]\<close>, the quotient \<open>toy_h\<close>,
  \<open>\<zeta> = 3\<close>; \<open>toy_opening_commit\<close> is the instance of the circuit with one custom-gate
  commitment, whose witness polynomial \<open>[5, 6]\<close> is the last polynomial of \<open>s.x\<close>.
\<close>

definition toy_opening :: "rat prover_instance" where
  "toy_opening =
     toy_instance\<lparr>s_x := [[4, 2], [0, 2], [0, 4], [1, 3], [], [], [], [], [], [], [], [], [], [], []],
                  s_h := toy_h, s_zeta := 3, s_proof := toy_proof3\<rparr>"

definition toy_opening_commit :: "rat prover_instance" where
  "toy_opening_commit =
     toy_instance\<lparr>s_x := [[4, 2], [0, 2], [0, 4], [1, 3], [], [], [], [], [], [], [], [], [], [], [],
                          [0, 1], [5, 6]],
                  s_h := toy_h, s_zeta := 3,
                  s_proof := toy_proof3\<lparr>Bsb22Commitments := [13]\<rparr>,
                  s_trace := toy_trace_commit\<rparr>"

section \<open>Results: loops\<close>

lemma upd_opt_SomeD: "upd_opt xs i v = Some ys \<Longrightarrow> i < length xs \<and> ys = xs[i := v]"
  by (auto simp: upd_opt_def split: if_splits)

lemma nth_opt_SomeD: "nth_opt xs i = Some v \<Longrightarrow> i < length xs \<and> v = xs ! i"
  by (auto simp: nth_opt_def split: if_splits)

text \<open>A loop that writes \<open>g (src ! f i)\<close> at \<open>base + i\<close> for every \<open>i < m\<close>.\<close>

lemma foldM_opt_append:
  "foldM_opt f (xs @ ys) s = (case foldM_opt f xs s of None \<Rightarrow> None | Some s' \<Rightarrow> foldM_opt f ys s')"
  by (induction xs arbitrary: s) (auto split: option.splits)

lemma foldM_opt_upt_Suc:
  "foldM_opt f [0 ..< Suc n] s = (case foldM_opt f [0 ..< n] s of None \<Rightarrow> None | Some s' \<Rightarrow> f n s')"
  by (simp add: foldM_opt_append split: option.splits)

lemma foldM_opt_upt_inv:
  assumes "P 0 s0"
    and "\<And>k s. k < n \<Longrightarrow> P k s \<Longrightarrow> \<exists>s'. f k s = Some s' \<and> P (Suc k) s'"
  shows "\<exists>s'. foldM_opt f [0 ..< n] s0 = Some s' \<and> P n s'"
proof -
  have "m \<le> n \<Longrightarrow> \<exists>s'. foldM_opt f [0 ..< m] s0 = Some s' \<and> P m s'" for m
  proof (induction m)
    case 0
    then show ?case using assms(1) by simp
  next
    case (Suc m)
    then obtain s1 where s1: "foldM_opt f [0 ..< m] s0 = Some s1" "P m s1" by auto
    from assms(2)[OF _ s1(2)] Suc.prems obtain s2 where "f m s1 = Some s2" "P (Suc m) s2" by auto
    then show ?case using s1 by (simp add: foldM_opt_upt_Suc del: upt_Suc)
  qed
  then show ?thesis by simp
qed

lemma foldM_opt_list_inv:
  assumes "P s0"
    and "\<And>x s. x \<in> set xs \<Longrightarrow> P s \<Longrightarrow> \<exists>s'. f x s = Some s' \<and> P s'"
  shows "\<exists>s'. foldM_opt f xs s0 = Some s' \<and> P s'"
  using assms
proof (induction xs arbitrary: s0)
  case Nil
  then show ?case by simp
next
  case (Cons x xs)
  from Cons.prems(2)[of x s0] Cons.prems(1) obtain s1 where s1: "f x s0 = Some s1" "P s1" by auto
  have "\<exists>s'. foldM_opt f xs s1 = Some s' \<and> P s'"
    by (rule Cons.IH[OF s1(2)]) (use Cons.prems(2) in auto)
  then show ?case using s1 by simp
qed

lemma foldM_opt_map: "foldM_opt f (map g xs) s = foldM_opt (\<lambda>x. f (g x)) xs s"
  by (induction xs arbitrary: s) (auto split: option.splits)

lemma enumerate_as_map: "enumerate 0 cs = map (\<lambda>j. (j, cs ! j)) [0 ..< length cs]"
  by (rule nth_equalityI) (simp_all add: nth_enumerate_eq)

lemma foldM_opt_Some_inv:
  assumes "foldM_opt f xs s = Some s'" and "P s"
    and "\<And>x s t. x \<in> set xs \<Longrightarrow> P s \<Longrightarrow> f x s = Some t \<Longrightarrow> P t"
  shows "P s'"
  using assms
proof (induction xs arbitrary: s)
  case Nil
  then show ?case by simp
next
  case (Cons x xs)
  from Cons.prems(1) obtain s1 where s1: "f x s = Some s1" "foldM_opt f xs s1 = Some s'"
    by (auto split: option.splits)
  have p1: "P s1" using Cons.prems(3)[of x s s1] Cons.prems(2) s1(1) by simp
  show ?case
  proof (rule Cons.IH[OF s1(2) p1])
    fix y u v assume "y \<in> set xs" "P u" "f y u = Some v"
    then show "P v" using Cons.prems(3)[of y u v] by simp
  qed
qed

lemma foldM_opt_upt_Some_inv:
  assumes run: "foldM_opt f [0 ..< n] s0 = Some s'" and init: "P 0 s0"
    and step: "\<And>k s t. k < n \<Longrightarrow> P k s \<Longrightarrow> f k s = Some t \<Longrightarrow> P (Suc k) t"
  shows "P n s'"
proof -
  have "m \<le> n \<Longrightarrow> foldM_opt f [0 ..< m] s0 = Some t \<Longrightarrow> P m t" for m t
  proof (induction m arbitrary: t)
    case 0
    then show ?case using init by simp
  next
    case (Suc m)
    from Suc.prems(2) obtain s1 where s1: "foldM_opt f [0 ..< m] s0 = Some s1" "f m s1 = Some t"
      by (auto simp: foldM_opt_upt_Suc simp del: upt_Suc split: option.splits)
    have "P m s1" using Suc.IH[OF _ s1(1)] Suc.prems(1) by simp
    then show ?case using step[of m s1 t] s1(2) Suc.prems(1) by simp
  qed
  then show ?thesis using run by blast
qed

lemma write_loop:
  assumes "foldM_opt (\<lambda>i p. do { q \<leftarrow> nth_opt src (f i); upd_opt p (base + i) (g q) }) [0 ..< m] p = Some p'"
  shows "length p' = length p"
    and "\<forall>k<length p. p' ! k = (if base \<le> k \<and> k < base + m then g (src ! f (k - base)) else p ! k)"
    and "m = 0 \<or> base + m \<le> length p"
proof -
  let ?P = "\<lambda>j q. length q = length p
      \<and> (\<forall>k<length p. q ! k = (if base \<le> k \<and> k < base + j then g (src ! f (k - base)) else p ! k))
      \<and> (j = 0 \<or> base + j \<le> length p)"
  have "?P m p'"
  proof (rule foldM_opt_upt_Some_inv[where P = ?P, OF assms])
    show "?P 0 p" by auto
  next
    fix k s t assume k: "k < m" and s: "?P k s"
      and st: "(do { q \<leftarrow> nth_opt src (f k); upd_opt s (base + k) (g q) }) = Some t"
    from st obtain q where q: "nth_opt src (f k) = Some q" "upd_opt s (base + k) (g q) = Some t"
      by (auto simp: bind_eq_Some_conv)
    have qv: "q = src ! f k" using nth_opt_SomeD[OF q(1)] by simp
    have u: "base + k < length s" "t = s[base + k := g q]" using upd_opt_SomeD[OF q(2)] by simp_all
    have "\<forall>j<length p. t ! j = (if base \<le> j \<and> j < base + Suc k then g (src ! f (j - base)) else p ! j)"
    proof (intro allI impI)
      fix j assume j: "j < length p"
      show "t ! j = (if base \<le> j \<and> j < base + Suc k then g (src ! f (j - base)) else p ! j)"
      proof (cases "j = base + k")
        case True
        then show ?thesis using u s qv by simp
      next
        case False
        then have "t ! j = s ! j" using u by simp
        moreover have "(base \<le> j \<and> j < base + Suc k) = (base \<le> j \<and> j < base + k)"
          using False by auto
        ultimately show ?thesis using s j by simp
      qed
    qed
    then show "?P (Suc k) t" using s u by simp
  qed
  then show "length p' = length p"
    and "\<forall>k<length p. p' ! k = (if base \<le> k \<and> k < base + m then g (src ! f (k - base)) else p ! k)"
    and "m = 0 \<or> base + m \<le> length p"
    by blast+
qed

section \<open>Results: the setup commitment\<close>

lemma interleave_row:
  assumes "cur \<le> length polys" "\<forall>j<cur. i < length (polys ! j)" "i * t + cur \<le> length buf"
  shows "\<exists>buf'. foldM_opt (interleave_step polys t i) [0 ..< cur] buf = Some buf'
           \<and> length buf' = length buf
           \<and> (\<forall>k<length buf. buf' ! k =
                 (if i * t \<le> k \<and> k < i * t + cur then polys ! (k - i * t) ! i else buf ! k))"
  using assms
proof (induction cur)
  case 0
  then show ?case by auto
next
  case (Suc c)
  then obtain b where b: "foldM_opt (interleave_step polys t i) [0 ..< c] buf = Some b"
      "length b = length buf"
      "\<forall>k<length buf. b ! k = (if i * t \<le> k \<and> k < i * t + c then polys ! (k - i * t) ! i else buf ! k)"
    by force
  have step: "interleave_step polys t i c b = Some (b[i * t + c := polys ! c ! i])"
    using Suc.prems b(2) by (simp add: interleave_step_def nth_opt_def upd_opt_def)
  have "\<forall>k<length buf. (b[i * t + c := polys ! c ! i]) ! k =
          (if i * t \<le> k \<and> k < i * t + Suc c then polys ! (k - i * t) ! i else buf ! k)"
  proof (intro allI impI)
    fix k assume k: "k < length buf"
    show "(b[i * t + c := polys ! c ! i]) ! k =
          (if i * t \<le> k \<and> k < i * t + Suc c then polys ! (k - i * t) ! i else buf ! k)"
    proof (cases "k = i * t + c")
      case True
      then show ?thesis using b(2) k by simp
    next
      case False
      then have "(b[i * t + c := polys ! c ! i]) ! k = b ! k" by simp
      moreover have "(i * t \<le> k \<and> k < i * t + Suc c) = (i * t \<le> k \<and> k < i * t + c)"
        using False by auto
      ultimately show ?thesis using b(3) k by simp
    qed
  qed
  then show ?case
    using b step by (simp add: foldM_opt_upt_Suc del: upt_Suc)
qed

lemma row_index:
  fixes t :: nat
  assumes "0 < t"
  shows "(m * t \<le> k \<and> k < m * t + cur \<and> cur \<le> t) \<longleftrightarrow> (k div t = m \<and> k mod t < cur \<and> cur \<le> t)"
proof
  assume a: "m * t \<le> k \<and> k < m * t + cur \<and> cur \<le> t"
  then obtain j where j: "k = m * t + j" "j < cur" "j < t"
    by (metis add_diff_inverse_nat less_le_trans nat_add_left_cancel_less not_less)
  then show "k div t = m \<and> k mod t < cur \<and> cur \<le> t" using a assms by simp
next
  assume a: "k div t = m \<and> k mod t < cur \<and> cur \<le> t"
  have "k = (k div t) * t + k mod t" by simp
  then show "m * t \<le> k \<and> k < m * t + cur \<and> cur \<le> t" using a
    by (metis add_less_cancel_left le_add1)
qed

lemma interleave_rows:
  assumes "cur \<le> t" "cur \<le> length polys" "\<forall>j<cur. m \<le> length (polys ! j)" "t * m \<le> length buf"
  shows "\<exists>buf'. foldM_opt (\<lambda>i buf. foldM_opt (interleave_step polys t i) [0 ..< cur] buf) [0 ..< m] buf = Some buf'
           \<and> length buf' = length buf
           \<and> (\<forall>k<length buf. buf' ! k =
                 (if k < t * m \<and> k mod t < cur then polys ! (k mod t) ! (k div t) else buf ! k))"
  using assms
proof (induction m)
  case 0
  then show ?case by simp
next
  case (Suc m)
  then obtain b where b: "foldM_opt (\<lambda>i buf. foldM_opt (interleave_step polys t i) [0 ..< cur] buf) [0 ..< m] buf = Some b"
      "length b = length buf"
      "\<forall>k<length buf. b ! k = (if k < t * m \<and> k mod t < cur then polys ! (k mod t) ! (k div t) else buf ! k)"
    by force
  have rng: "m * t + cur \<le> length b"
    using Suc.prems b(2) by (simp add: algebra_simps) 
  have "\<forall>j<cur. m < length (polys ! j)" using Suc.prems by auto
  from interleave_row[OF Suc.prems(2) this rng]
  obtain b' where b': "foldM_opt (interleave_step polys t m) [0 ..< cur] b = Some b'"
      "length b' = length b"
      "\<forall>k<length b. b' ! k = (if m * t \<le> k \<and> k < m * t + cur then polys ! (k - m * t) ! m else b ! k)"
    by blast
  have "\<forall>k<length buf. b' ! k =
          (if k < t * Suc m \<and> k mod t < cur then polys ! (k mod t) ! (k div t) else buf ! k)"
  proof (intro allI impI)
    fix k assume k: "k < length buf"
    show "b' ! k = (if k < t * Suc m \<and> k mod t < cur then polys ! (k mod t) ! (k div t) else buf ! k)"
    proof (cases "t = 0")
      case True
      then show ?thesis using b'(3) b(2,3) k Suc.prems(1) by simp
    next
      case False
      then have t: "0 < t" by simp
      show ?thesis
      proof (cases "m * t \<le> k \<and> k < m * t + cur")
        case True
        then have dm: "k div t = m" "k mod t < cur"
          using row_index[OF t, of m k cur] Suc.prems(1) by auto
        have "k - m * t = k mod t" using dm(1)
          by (metis add_diff_cancel_left' div_mult_mod_eq)
        moreover have "k < t * Suc m" using True Suc.prems(1) by (simp add: algebra_simps)
        ultimately show ?thesis using b'(3) b(2) k True dm by simp
      next
        case False
        then have nd: "\<not> (k div t = m \<and> k mod t < cur)"
          using row_index[OF t, of m k cur] Suc.prems(1) by auto
        have lt: "k < t * Suc m \<longleftrightarrow> k < t * m \<or> k div t = m"
          using t by (metis less_Suc_eq less_mult_imp_div_less mult.commute div_less_iff_less_mult)
        show ?thesis using b'(3) b(2,3) k False nd lt by auto
      qed
    qed
  qed
  then show ?case
    using b b' by (simp add: foldM_opt_upt_Suc del: upt_Suc)
qed

lemma traceList_length: "length (traceList E trace domain) = 8 + length (Qcp trace)"
  by (simp add: traceList_def)

lemma traceList_Qcp:
  "k < length (Qcp trace) \<Longrightarrow>
     traceList E trace domain ! (setup_s3 + 1 + k) = ext_ToCanonical E domain (Qcp trace ! k)"
  by (simp add: traceList_def setup_s3_def nth_append)

lemma commitTrace_buf_spec:
  assumes "\<forall>p \<in> set (traceList E trace domain). length p = Cardinality domain"
  shows "\<exists>buf. commitTrace_buf E trace domain = Some buf
     \<and> length buf = (15 + 2 * length (Qcp trace)) * Cardinality domain
     \<and> (\<forall>i<Cardinality domain. \<forall>j<15 + 2 * length (Qcp trace).
           buf ! (i * (15 + 2 * length (Qcp trace)) + j) =
             (if j < 8 + length (Qcp trace) then traceList E trace domain ! j ! i else 0))"
proof -
  let ?t = "15 + 2 * length (Qcp trace)"
  let ?cur = "8 + length (Qcp trace)"
  let ?n = "Cardinality domain"
  let ?polys = "traceList E trace domain"
  let ?buf0 = "replicate (?t * ?n) (0::'a)"
  have len: "\<forall>j<?cur. ?n \<le> length (?polys ! j)"
    using assms by (simp add: traceList_length)
  have "?cur \<le> ?t" "?cur \<le> length ?polys" "?t * ?n \<le> length ?buf0"
    by (simp_all add: traceList_length)
  from interleave_rows[OF this(1,2) len this(3)]
  obtain buf where buf:
      "foldM_opt (\<lambda>i buf. foldM_opt (interleave_step ?polys ?t i) [0 ..< ?cur] buf) [0 ..< ?n] ?buf0 = Some buf"
      "length buf = length ?buf0"
      "\<forall>k<length ?buf0. buf ! k =
          (if k < ?t * ?n \<and> k mod ?t < ?cur then ?polys ! (k mod ?t) ! (k div ?t) else ?buf0 ! k)"
    by blast
  have run: "commitTrace_buf E trace domain = Some buf"
    using buf(1) by (simp add: commitTrace_buf_def commitTrace_t_def Let_def number_polynomials_def setup_s3_def add.commute)
  have "\<forall>i<?n. \<forall>j<?t. buf ! (i * ?t + j) = (if j < ?cur then ?polys ! j ! i else 0)"
  proof (intro allI impI)
    fix i j assume i: "i < ?n" and j: "j < ?t"
    have "i * ?t + j < (Suc i) * ?t" using j by simp
    also have "\<dots> \<le> ?n * ?t" using i by (metis Suc_leI mult_le_mono1)
    finally have k: "i * ?t + j < ?t * ?n" by (simp add: mult.commute)
    have "(i * ?t + j) mod ?t = j" "(i * ?t + j) div ?t = i" using j by simp_all
    then show "buf ! (i * ?t + j) = (if j < ?cur then ?polys ! j ! i else 0)"
      using buf(3) k by simp
  qed
  then show ?thesis using run buf(2) by (simp add: mult.commute)
qed

lemma toy_domain_eq: "initFFTDomain toy_ext toy_circuit = toy_domain"
  by code_simp

lemma toy_trace_eq: "NewTrace toy_ext toy_circuit toy_domain = Some toy_trace"
  by code_simp

text \<open>
  C8. \<^verbatim>\<open>commitTrace\<close> puts the setup polynomials \<open>Ql, Qr, Qm, Qo, Qk\<close> (incomplete),
  \<open>S1, S2, S3\<close> and the \<open>Qcp\<close>, all in canonical regular form, into one buffer of \<open>t \<cdot> n\<close>
  scalars with \<open>t = 15 + 2\<cdot>|Qcp|\<close>: coefficient \<open>i\<close> of polynomial \<open>j\<close> is at slot
  \<open>i\<cdot>t + j\<close>, every slot whose polynomial index is \<open>8 + |Qcp|\<close> or more is zero, and the
  result of \<^verbatim>\<open>commitTrace\<close> is the result of the one commitment of this buffer, stored in
  \<open>Qpublic\<close>. The hypothesis is the invariant of the trace: every canonical form has as
  many coefficients as the domain has elements.
\<close>

theorem commitTrace_interleaves:
  assumes "\<forall>p \<in> set (traceList E trace domain). length p = Cardinality domain"
  shows "\<exists>buf. commitTrace_buf E trace domain = Some buf
     \<and> number_polynomials = 15
     \<and> length buf = (15 + 2 * length (Qcp trace)) * Cardinality domain
     \<and> (\<forall>i<Cardinality domain. \<forall>j<15 + 2 * length (Qcp trace).
           buf ! (i * (15 + 2 * length (Qcp trace)) + j) =
             (if j < 8 + length (Qcp trace) then traceList E trace domain ! j ! i else 0))
     \<and> commitTrace E vk trace domain srsPk =
           Some (case kzg_Commit buf srsPk of
                   Inl err \<Rightarrow> Inl err
                 | Inr d \<Rightarrow> Inr (vk\<lparr>Qpublic := d\<rparr>))
     \<and> traceList E trace domain ! setup_ql = ext_ToCanonical E domain (Ql trace)
     \<and> traceList E trace domain ! setup_qr = ext_ToCanonical E domain (Qr trace)
     \<and> traceList E trace domain ! setup_qm = ext_ToCanonical E domain (Qm trace)
     \<and> traceList E trace domain ! setup_qo = ext_ToCanonical E domain (Qo trace)
     \<and> traceList E trace domain ! setup_qk_incomplete = ext_ToCanonical E domain (Qk trace)
     \<and> traceList E trace domain ! setup_s1 = ext_ToCanonical E domain (S1 trace)
     \<and> traceList E trace domain ! setup_s2 = ext_ToCanonical E domain (S2 trace)
     \<and> traceList E trace domain ! setup_s3 = ext_ToCanonical E domain (S3 trace)
     \<and> (\<forall>k<length (Qcp trace).
           traceList E trace domain ! (setup_s3 + 1 + k) = ext_ToCanonical E domain (Qcp trace ! k))"
proof -
  from commitTrace_buf_spec[OF assms]
  obtain buf where buf: "commitTrace_buf E trace domain = Some buf"
      "length buf = (15 + 2 * length (Qcp trace)) * Cardinality domain"
      "\<forall>i<Cardinality domain. \<forall>j<15 + 2 * length (Qcp trace).
           buf ! (i * (15 + 2 * length (Qcp trace)) + j) =
             (if j < 8 + length (Qcp trace) then traceList E trace domain ! j ! i else 0)"
    by blast
  have c: "commitTrace E vk trace domain srsPk =
           Some (case kzg_Commit buf srsPk of
                   Inl err \<Rightarrow> Inl err
                 | Inr d \<Rightarrow> Inr (vk\<lparr>Qpublic := d\<rparr>))"
    using buf(1) by (simp add: commitTrace_def)
  have fixed: "traceList E trace domain ! setup_ql = ext_ToCanonical E domain (Ql trace)"
      "traceList E trace domain ! setup_qr = ext_ToCanonical E domain (Qr trace)"
      "traceList E trace domain ! setup_qm = ext_ToCanonical E domain (Qm trace)"
      "traceList E trace domain ! setup_qo = ext_ToCanonical E domain (Qo trace)"
      "traceList E trace domain ! setup_qk_incomplete = ext_ToCanonical E domain (Qk trace)"
      "traceList E trace domain ! setup_s1 = ext_ToCanonical E domain (S1 trace)"
      "traceList E trace domain ! setup_s2 = ext_ToCanonical E domain (S2 trace)"
      "traceList E trace domain ! setup_s3 = ext_ToCanonical E domain (S3 trace)"
    by (simp_all add: traceList_def slot_defs)
  show ?thesis
    using buf c fixed traceList_Qcp[of _ trace E domain]
    by (simp add: number_polynomials_def)
qed

theorem commitTrace_interleaves_witness:
  "list_all (\<lambda>p. length p = Cardinality toy_domain) (traceList toy_ext toy_trace toy_domain)
   \<and> (\<exists>buf. commitTrace_buf toy_ext toy_trace toy_domain = Some buf
         \<and> length buf = 30
         \<and> buf ! (1 * 15 + 2) = traceList toy_ext toy_trace toy_domain ! 2 ! 1
         \<and> buf ! (1 * 15 + 8) = 0)"
proof -
  have h: "\<forall>p \<in> set (traceList toy_ext toy_trace toy_domain). length p = Cardinality toy_domain"
    by (simp add: traceList_def toy_ext_def toy_trace_def toy_domain_def inverse_dft_def)
  from commitTrace_interleaves[OF h, of toy_vk "[]"]
  obtain buf where buf: "commitTrace_buf toy_ext toy_trace toy_domain = Some buf"
      "length buf = (15 + 2 * length (Qcp toy_trace)) * Cardinality toy_domain"
      "\<forall>i<Cardinality toy_domain. \<forall>j<15 + 2 * length (Qcp toy_trace).
           buf ! (i * (15 + 2 * length (Qcp toy_trace)) + j) =
             (if j < 8 + length (Qcp toy_trace) then traceList toy_ext toy_trace toy_domain ! j ! i else 0)"
    by blast
  have q: "length (Qcp toy_trace) = 0" "Cardinality toy_domain = 2"
    by (simp_all add: toy_trace_def toy_domain_def)
  have "buf ! (1 * 15 + 2) = traceList toy_ext toy_trace toy_domain ! 2 ! 1"
    using buf(3)[rule_format, of 1 2] q by simp
  moreover have "buf ! (1 * 15 + 8) = 0"
    using buf(3)[rule_format, of 1 8] q by simp
  moreover have "length buf = 30" using buf(2) q by simp
  ultimately show ?thesis
    using buf(1) h by (simp add: list_all_iff)
qed

text \<open>
  C1. The circuit \<open>x \<cdot> x = y\<close> has domain cardinality 2, and an SRS of 5 points passes both
  checks of \<^verbatim>\<open>Setup\<close> (\<open>2 \<le> 2\<close> and \<open>2 + 3 \<le> 5\<close>). \<^verbatim>\<open>Setup\<close> then builds the trace and
  the interleaved buffer of \<open>15 \<cdot> 2 = 30\<close> scalars, and the commitment of this buffer fails
  for lack of key points: \<^verbatim>\<open>Setup\<close> returns the error of \<^verbatim>\<open>kzg.Commit\<close>, not a key pair.
\<close>

theorem Setup_undersized_srs_passes_check:
  "Cardinality (initFFTDomain toy_ext toy_circuit) = 2
   \<and> \<not> Cardinality (initFFTDomain toy_ext toy_circuit) < 2
   \<and> \<not> length [1, 2, 3, 4, 5 :: rat] < Cardinality (initFFTDomain toy_ext toy_circuit) + 3
   \<and> map_option length (commitTrace_buf toy_ext toy_trace toy_domain) = Some 30
   \<and> NewTrace toy_ext toy_circuit (initFFTDomain toy_ext toy_circuit) = Some toy_trace
   \<and> Setup toy_ext toy_circuit [1, 2, 3, 4, 5] = Some (Inl ErrInvalidPolynomialSize)"
  by code_simp

lemma commitTrace_buf_length:
  assumes "commitTrace_buf E trace domain = Some buf"
  shows "length buf = commitTrace_t trace * Cardinality domain"
proof -
  let ?L = "commitTrace_t trace * Cardinality domain"
  let ?P = "\<lambda>b :: 'a list. length b = ?L"
  show ?thesis
  proof (rule foldM_opt_Some_inv[where P = ?P, OF assms[unfolded commitTrace_buf_def Let_def]])
    show "?P (replicate ?L 0)" by simp
  next
    fix i :: nat and s t :: "'a list"
    assume s: "?P s"
      and run: "foldM_opt (interleave_step (traceList E trace domain) (commitTrace_t trace) i)
                  [0 ..< setup_s3 + length (Qcp trace) + 1] s = Some t"
    show "?P t"
    proof (rule foldM_opt_Some_inv[where P = ?P, OF run s])
      fix j :: nat and u v :: "'a list"
      assume "?P u" "interleave_step (traceList E trace domain) (commitTrace_t trace) i j u = Some v"
      then show "?P v"
        by (auto simp: interleave_step_def bind_eq_Some_conv dest!: upd_opt_SomeD)
    qed
  qed
qed

lemma NewTrace_Qcp_length:
  assumes "NewTrace E spr domain = Some tr"
  shows "length (Qcp tr) = length (CommitmentInfo spr)"
proof -
  from assms obtain qcp where
    q: "foldM_opt (qcp_row (CommitmentInfo spr) (NextPowerOfTwo (length (Constraints spr) + Public spr)) (Public spr))
          [0 ..< length (CommitmentInfo spr)] (replicate (length (CommitmentInfo spr)) []) = Some qcp"
    and tr: "Qcp tr = qcp"
    by (auto simp: NewTrace_def Let_def buildPermutation_def bind_eq_Some_conv split: prod.splits)
  have "length qcp = length (CommitmentInfo spr)"
  proof (rule foldM_opt_Some_inv[where P = "\<lambda>q. length q = length (CommitmentInfo spr)", OF q])
    show "length (replicate (length (CommitmentInfo spr)) []) = length (CommitmentInfo spr)" by simp
  next
    fix i :: nat and s t :: "'a list list"
    assume "length s = length (CommitmentInfo spr)"
      "qcp_row (CommitmentInfo spr) (NextPowerOfTwo (length (Constraints spr) + Public spr)) (Public spr) i s = Some t"
    then show "length t = length (CommitmentInfo spr)"
      by (auto simp: qcp_row_def bind_eq_Some_conv dest!: upd_opt_SomeD)
  qed
  then show ?thesis using tr by simp
qed

text \<open>
  Every SRS between the bound of the check and the size of the interleaved buffer is
  accepted by the check and refused by the commitment (unless the trace construction
  panics).
\<close>

lemma Setup_srs_between_check_and_buffer:
  assumes "2 \<le> Cardinality (initFFTDomain E spr)"
    and "Cardinality (initFFTDomain E spr) + 3 \<le> length srs"
    and "length srs < (15 + 2 * length (CommitmentInfo spr)) * Cardinality (initFFTDomain E spr)"
  shows "Setup E spr srs = None \<or> Setup E spr srs = Some (Inl ErrInvalidPolynomialSize)"
proof (cases "Setup E spr srs")
  case None
  then show ?thesis by simp
next
  case (Some r)
  let ?d = "initFFTDomain E spr"
  from Some assms(1,2) obtain tr buf where
    tr: "NewTrace E spr ?d = Some tr" and buf: "commitTrace_buf E tr ?d = Some buf"
    and r: "r = (case kzg_Commit buf srs of Inl err \<Rightarrow> Inl err
                 | Inr d \<Rightarrow> Inr (\<lparr>Kzg = srs, Vk = \<lparr>Size = Cardinality ?d,
                        SizeInv = inverse (of_nat (Cardinality ?d)), Vk_Generator = Generator ?d,
                        NbPublicVariables = Public spr, CosetShift = FrMultiplicativeGen ?d,
                        Vk_Qcp = [], Qpublic = d,
                        CommitmentConstraintIndexes = map CommitmentIndex (CommitmentInfo spr)\<rparr>\<rparr>,
                      \<lparr>Size = Cardinality ?d,
                        SizeInv = inverse (of_nat (Cardinality ?d)), Vk_Generator = Generator ?d,
                        NbPublicVariables = Public spr, CosetShift = FrMultiplicativeGen ?d,
                        Vk_Qcp = [], Qpublic = d,
                        CommitmentConstraintIndexes = map CommitmentIndex (CommitmentInfo spr)\<rparr>))"
    by (auto simp: Setup_def commitTrace_def Let_def bind_eq_Some_conv split: sum.splits)
  have "length buf = (15 + 2 * length (CommitmentInfo spr)) * Cardinality ?d"
    using commitTrace_buf_length[OF buf] NewTrace_Qcp_length[OF tr]
    by (simp add: commitTrace_t_def number_polynomials_def)
  then have "kzg_Commit buf srs = Inl ErrInvalidPolynomialSize"
    using assms(3) by (simp add: kzg_Commit_def)
  then show ?thesis using Some r by simp
qed

section \<open>Results: the permutation\<close>

lemma cycle_links_bound:
  assumes "cycle_links L s" "i < length L"
  shows "s i < length L" "L ! (s i) = L ! i"
  using assms unfolding cycle_links_def by (metis less_trans)+

lemma cycle_links_earlier:
  assumes "cycle_links L s" "i < length L" "j < i" "L ! j = L ! i"
  shows "s i < i" "j \<le> s i"
proof -
  from assms(1,2) have d:
    "(s i < i \<and> L ! (s i) = L ! i \<and> (\<forall>q. s i < q \<and> q < i \<longrightarrow> L ! q \<noteq> L ! i))
      \<or> ((\<forall>j<i. L ! j \<noteq> L ! i) \<and> s i < length L \<and> L ! (s i) = L ! i
          \<and> (\<forall>q. s i < q \<and> q < length L \<longrightarrow> L ! q \<noteq> L ! i))"
    unfolding cycle_links_def by blast
  with assms(3,4) have a: "s i < i \<and> (\<forall>q. s i < q \<and> q < i \<longrightarrow> L ! q \<noteq> L ! i)" by blast
  then show "s i < i" by blast
  show "j \<le> s i"
  proof (rule ccontr)
    assume "\<not> j \<le> s i"
    then have "s i < j" by simp
    with a assms(3,4) show False by blast
  qed
qed

lemma cycle_links_first:
  assumes "cycle_links L s" "i < length L" "\<forall>j<i. L ! j \<noteq> L ! i"
  shows "i \<le> s i" "\<forall>q. s i < q \<and> q < length L \<longrightarrow> L ! q \<noteq> L ! i"
proof -
  from assms(1,2) have d:
    "(s i < i \<and> L ! (s i) = L ! i \<and> (\<forall>q. s i < q \<and> q < i \<longrightarrow> L ! q \<noteq> L ! i))
      \<or> ((\<forall>j<i. L ! j \<noteq> L ! i) \<and> s i < length L \<and> L ! (s i) = L ! i
          \<and> (\<forall>q. s i < q \<and> q < length L \<longrightarrow> L ! q \<noteq> L ! i))"
    unfolding cycle_links_def by blast
  with assms(3) have a: "s i < length L \<and> (\<forall>q. s i < q \<and> q < length L \<longrightarrow> L ! q \<noteq> L ! i)"
    by blast
  then show "\<forall>q. s i < q \<and> q < length L \<longrightarrow> L ! q \<noteq> L ! i" by blast
  show "i \<le> s i"
  proof (rule ccontr)
    assume "\<not> i \<le> s i"
    then have "s i < i" by simp
    with a assms(2) show False by blast
  qed
qed

lemma cycle_links_inj:
  assumes cl: "cycle_links L s"
  shows "inj_on s {..<length L}"
proof (rule inj_onI)
  fix i j assume "i \<in> {..<length L}" "j \<in> {..<length L}" and eq: "s i = s j"
  then have i: "i < length L" and j: "j < length L" by simp_all
  have same: "L ! i = L ! j"
    using cycle_links_bound(2)[OF cl i] cycle_links_bound(2)[OF cl j] eq by simp
  have aux: "False" if ab: "a < b" and a: "a < length L" and b: "b < length L"
      and sab: "s a = s b" and lab: "L ! a = L ! b" for a b
  proof -
    have sb: "s b < b" "a \<le> s b"
      using cycle_links_earlier[OF cl b ab lab] by simp_all
    show False
    proof (cases "\<exists>k<a. L ! k = L ! a")
      case True
      then obtain k where "k < a" "L ! k = L ! a" by blast
      from cycle_links_earlier(1)[OF cl a this] have "s a < a" .
      with sb sab show False by simp
    next
      case False
      then have "\<forall>k<a. L ! k \<noteq> L ! a" by blast
      from cycle_links_first(2)[OF cl a this] have "\<forall>q. s a < q \<and> q < length L \<longrightarrow> L ! q \<noteq> L ! a" .
      with sab sb b lab show False by metis
    qed
  qed
  show "i = j"
  proof (rule ccontr)
    assume "i \<noteq> j"
    then consider "i < j" | "j < i" by linarith
    then show False
      using aux[of i j] aux[of j i] i j eq same by (cases) auto
  qed
qed

lemma cycle_links_orbit_sub:
  assumes cl: "cycle_links L s" and i: "i < length L"
  shows "(s ^^ t) i < length L \<and> L ! ((s ^^ t) i) = L ! i"
  by (induction t) (use i cycle_links_bound[OF cl] in auto)

lemma cycle_links_descend:
  assumes cl: "cycle_links L s"
  shows "i < length L \<Longrightarrow> j \<le> i \<Longrightarrow> L ! j = L ! i \<Longrightarrow> \<exists>t. (s ^^ t) i = j"
proof (induction i rule: less_induct)
  case (less i)
  show ?case
  proof (cases "j = i")
    case True
    then have "(s ^^ 0) i = j" by simp
    then show ?thesis by blast
  next
    case False
    then have ji: "j < i" using less.prems by simp
    have si: "s i < i" "j \<le> s i"
      using cycle_links_earlier[OF cl less.prems(1) ji less.prems(3)] by simp_all
    have "s i < length L" "L ! (s i) = L ! i"
      using cycle_links_bound[OF cl less.prems(1)] by simp_all
    then obtain t where "(s ^^ t) (s i) = j"
      using less.IH[OF si(1)] si(2) less.prems(3) by auto
    then have "(s ^^ Suc t) i = j" by (simp add: funpow_swap1)
    then show ?thesis by blast
  qed
qed

lemma cycle_links_orbit_sup:
  assumes cl: "cycle_links L s" and i: "i < length L" and j: "j < length L" and same: "L ! j = L ! i"
  shows "\<exists>t. (s ^^ t) i = j"
proof -
  define f where "f = (LEAST k. L ! k = L ! i)"
  have f1: "L ! f = L ! i" unfolding f_def by (rule LeastI[of _ i]) simp
  have f2: "f \<le> i" unfolding f_def by (rule Least_le) simp
  have f3: "\<forall>k<f. L ! k \<noteq> L ! f" using f1 not_less_Least[of _ "\<lambda>k. L ! k = L ! i"] unfolding f_def by metis
  have fl: "f < length L" using f2 i by simp
  obtain t1 where t1: "(s ^^ t1) i = f"
    using cycle_links_descend[OF cl i f2 f1] by blast
  have last: "\<forall>q. s f < q \<and> q < length L \<longrightarrow> L ! q \<noteq> L ! f"
    using cycle_links_first(2)[OF cl fl f3] .
  have sf: "s f < length L" "L ! (s f) = L ! f" using cycle_links_bound[OF cl fl] by simp_all
  have "j \<le> s f"
  proof (rule ccontr)
    assume "\<not> j \<le> s f"
    then have "s f < j" by simp
    with last j same f1 show False by metis
  qed
  then obtain t2 where t2: "(s ^^ t2) (s f) = j"
    using cycle_links_descend[OF cl sf(1), of j] sf(2) f1 same by auto
  have a: "(s ^^ Suc t1) i = s f" using t1 by simp
  have "(s ^^ (t2 + Suc t1)) i = (s ^^ t2) ((s ^^ Suc t1) i)"
    by (simp only: funpow_add o_apply)
  then have "(s ^^ (t2 + Suc t1)) i = j" using a t2 by simp
  then show ?thesis by blast
qed

lemma cycle_links_orbit:
  assumes cl: "cycle_links L s" and i: "i < length L"
  shows "{(s ^^ t) i | t. True} = {j. j < length L \<and> L ! j = L ! i}"
proof (intro set_eqI iffI)
  fix j assume "j \<in> {(s ^^ t) i | t. True}"
  then show "j \<in> {j. j < length L \<and> L ! j = L ! i}"
    using cycle_links_orbit_sub[OF cl i] by auto
next
  fix j assume "j \<in> {j. j < length L \<and> L ! j = L ! i}"
  then show "j \<in> {(s ^^ t) i | t. True}"
    using cycle_links_orbit_sup[OF cl i, of j] by auto
qed

lemma build_lro_wf:
  assumes ids: "\<forall>c \<in> set (Constraints spr). XA c < nv \<and> XB c < nv \<and> XC c < nv"
    and pub: "Public spr \<le> nv" and nv: "0 < nv"
    and sz: "length (Constraints spr) + Public spr \<le> n"
  shows "\<exists>lro. build_lro spr n = Some lro \<and> length lro = 3 * n \<and> (\<forall>k<3 * n. lro ! k < nv)"
proof -
  let ?P = "\<lambda>lro. length lro = 3 * n \<and> (\<forall>k<3 * n. lro ! k < nv)"
  have p0: "?P (replicate (3 * n) (0::nat))" using nv by simp
  have "\<exists>lro. foldM_opt (\<lambda>i lro. upd_opt lro i i) [0 ..< Public spr] (replicate (3 * n) 0) = Some lro \<and> ?P lro"
  proof (rule foldM_opt_list_inv[where P = ?P, OF p0])
    fix x s assume x: "x \<in> set [0 ..< Public spr]" and s: "?P s"
    then have "x < 3 * n" "x < nv" using sz pub by auto
    then show "\<exists>s'. upd_opt s x x = Some s' \<and> ?P s'"
      using s by (auto simp: upd_opt_def nth_list_update)
  qed
  then obtain lro1 where l1: "foldM_opt (\<lambda>i lro. upd_opt lro i i) [0 ..< Public spr] (replicate (3 * n) 0) = Some lro1"
      "?P lro1" by blast
  let ?body = "\<lambda>(j, c) lro. do {
            lro \<leftarrow> upd_opt lro (Public spr + j) (XA c);
            lro \<leftarrow> upd_opt lro (n + Public spr + j) (XB c);
            upd_opt lro (2 * n + Public spr + j) (XC c)
          }"
  have "\<exists>lro. foldM_opt ?body (enumerate 0 (Constraints spr)) lro1 = Some lro \<and> ?P lro"
  proof (rule foldM_opt_list_inv[where P = ?P, OF l1(2)])
    fix x s assume x: "x \<in> set (enumerate 0 (Constraints spr))" and s: "?P s"
    obtain j c where jc: "x = (j, c)" by (cases x)
    with x have j: "j < length (Constraints spr)" and c: "c \<in> set (Constraints spr)"
      by (auto simp: in_set_enumerate_eq)
    have r: "Public spr + j < 3 * n" "n + Public spr + j < 3 * n" "2 * n + Public spr + j < 3 * n"
      using j sz by auto
    have v: "XA c < nv" "XB c < nv" "XC c < nv" using ids c by auto
    show "\<exists>s'. ?body x s = Some s' \<and> ?P s'"
      using s r v jc by (auto simp: upd_opt_def nth_list_update)
  qed
  then obtain lro2 where l2: "foldM_opt ?body (enumerate 0 (Constraints spr)) lro1 = Some lro2" "?P lro2"
    by blast
  have "build_lro spr n = Some lro2"
    using l1(1) l2(1) by (simp add: build_lro_def)
  then show ?thesis using l2(2) by blast
qed

lemma last_rel_Suc_other: "last_rel L k v x \<Longrightarrow> L ! k \<noteq> v \<Longrightarrow> last_rel L (Suc k) v x"
  unfolding last_rel_def by (metis less_Suc_eq)

lemma last_rel_Suc_same: "last_rel L (Suc k) (L ! k) (int k)"
  unfolding last_rel_def by auto

lemma link_step_inv:
  assumes k: "k < length L" and rng: "\<forall>i<length L. L ! i < nv" and inv: "link_inv L nv k s"
  shows "\<exists>s'. link_step L k s = Some s' \<and> link_inv L nv (Suc k) s'"
proof -
  obtain perm cycle where s: "s = (perm, cycle)" by (cases s)
  from inv s have lp: "length perm = length L" and lc: "length cycle = nv"
    and un: "\<forall>i<length L. k \<le> i \<longrightarrow> perm ! i = -1"
    and pr: "\<forall>i<k. last_rel L i (L ! i) (perm ! i)"
    and cy: "\<forall>v<nv. last_rel L k v (cycle ! v)"
    by (auto simp: link_inv_def)
  let ?v = "L ! k"
  let ?c = "cycle ! ?v"
  have v: "?v < nv" using rng k by simp
  let ?perm' = "if ?c \<noteq> -1 then perm[k := ?c] else perm"
  let ?cycle' = "cycle[?v := int k]"
  have run: "link_step L k s = Some (?perm', ?cycle')"
    using s k v lp lc by (simp add: link_step_def nth_opt_def upd_opt_def)
  have pk: "?perm' ! k = ?c" using un k lp by simp
  have a: "length ?perm' = length L" "length ?cycle' = nv" using lp lc by simp_all
  have b: "\<forall>i<length L. Suc k \<le> i \<longrightarrow> ?perm' ! i = -1" using un by simp
  have c: "\<forall>i<Suc k. last_rel L i (L ! i) (?perm' ! i)"
  proof (intro allI impI)
    fix i assume "i < Suc k"
    then consider "i < k" | "i = k" by linarith
    then show "last_rel L i (L ! i) (?perm' ! i)"
    proof cases
      case 1
      then have "?perm' ! i = perm ! i" by simp
      then show ?thesis using pr 1 by simp
    next
      case 2
      then show ?thesis using pk cy v by simp
    qed
  qed
  have d: "\<forall>w<nv. last_rel L (Suc k) w (?cycle' ! w)"
  proof (intro allI impI)
    fix w assume w: "w < nv"
    show "last_rel L (Suc k) w (?cycle' ! w)"
    proof (cases "w = ?v")
      case True
      then show ?thesis using last_rel_Suc_same[of L k] lc v by simp
    next
      case False
      then have "?cycle' ! w = cycle ! w" by simp
      then show ?thesis using last_rel_Suc_other[of L k w "cycle ! w"] cy w False by simp
    qed
  qed
  have "link_inv L nv (Suc k) (?perm', ?cycle')"
    unfolding link_inv_def using a b c d by simp
  then show ?thesis using run by simp
qed

lemma link_loop:
  assumes rng: "\<forall>i<length L. L ! i < nv"
  shows "\<exists>s'. foldM_opt (link_step L) [0 ..< length L] (replicate (length L) (-1), replicate nv (-1)) = Some s'
           \<and> link_inv L nv (length L) s'"
proof (rule foldM_opt_upt_inv[where P = "link_inv L nv"])
  show "link_inv L nv 0 (replicate (length L) (- 1), replicate nv (- 1))"
    by (simp add: link_inv_def last_rel_def)
next
  fix k s assume "k < length L" "link_inv L nv k s"
  then show "\<exists>s'. link_step L k s = Some s' \<and> link_inv L nv (Suc k) s'"
    using link_step_inv[OF _ rng] by blast
qed

lemma complete_loop:
  assumes rng: "\<forall>i<length L. L ! i < length cycle" and lp: "length perm1 = length L"
  shows "\<exists>perm. foldM_opt (complete_step L cycle) [0 ..< length L] perm1 = Some perm
           \<and> complete_inv L perm1 cycle (length L) perm"
proof (rule foldM_opt_upt_inv[where P = "complete_inv L perm1 cycle"])
  show "complete_inv L perm1 cycle 0 perm1" using lp by (simp add: complete_inv_def)
next
  fix k perm assume k: "k < length L" and inv: "complete_inv L perm1 cycle k perm"
  then have len: "length perm = length L"
    and val: "\<forall>i<length L. perm ! i = (if i < k \<and> perm1 ! i = -1 then cycle ! (L ! i) else perm1 ! i)"
    by (auto simp: complete_inv_def)
  have pk: "perm ! k = perm1 ! k" using val k by simp
  let ?perm' = "if perm1 ! k = -1 then perm[k := cycle ! (L ! k)] else perm"
  have run: "complete_step L cycle k perm = Some ?perm'"
    using k len pk rng by (simp add: complete_step_def nth_opt_def upd_opt_def)
  have "\<forall>i<length L. ?perm' ! i = (if i < Suc k \<and> perm1 ! i = -1 then cycle ! (L ! i) else perm1 ! i)"
  proof (intro allI impI)
    fix i assume i: "i < length L"
    show "?perm' ! i = (if i < Suc k \<and> perm1 ! i = -1 then cycle ! (L ! i) else perm1 ! i)"
    proof (cases "i = k")
      case True
      then show ?thesis using pk len k by simp
    next
      case False
      then have "?perm' ! i = perm ! i" by simp
      moreover have "(i < Suc k) = (i < k)" using False by auto
      ultimately show ?thesis using val i by simp
    qed
  qed
  then have "complete_inv L perm1 cycle (Suc k) ?perm'"
    using len by (simp add: complete_inv_def)
  then show "\<exists>s'. complete_step L cycle k perm = Some s' \<and> complete_inv L perm1 cycle (Suc k) s'"
    using run by simp
qed

lemma build_lro_content:
  assumes sz: "length (Constraints spr) + Public spr \<le> n"
  shows "\<exists>lro. build_lro spr n = Some lro \<and> length lro = 3 * n
           \<and> (\<forall>k<3 * n. lro ! k = lro_content spr n (length (Constraints spr)) k)"
proof -
  let ?pub = "Public spr"
  let ?cs = "Constraints spr"
  let ?P1 = "\<lambda>j lro. length lro = 3 * n \<and> (\<forall>k<3 * n. lro ! k = (if k < j then k else 0))"
  have "\<exists>lro. foldM_opt (\<lambda>i lro. upd_opt lro i i) [0 ..< ?pub] (replicate (3 * n) 0) = Some lro \<and> ?P1 ?pub lro"
  proof (rule foldM_opt_upt_inv[where P = ?P1])
    show "?P1 0 (replicate (3 * n) 0)" by simp
  next
    fix j s assume j: "j < ?pub" and s: "?P1 j s"
    then have "j < length s" using sz by simp
    moreover have "\<forall>k<3 * n. s[j := j] ! k = (if k < Suc j then k else 0)"
      using s by (auto simp: nth_list_update less_Suc_eq)
    ultimately show "\<exists>s'. upd_opt s j j = Some s' \<and> ?P1 (Suc j) s'"
      using s by (simp add: upd_opt_def)
  qed
  then obtain lro1 where l1: "foldM_opt (\<lambda>i lro. upd_opt lro i i) [0 ..< ?pub] (replicate (3 * n) 0) = Some lro1"
      "length lro1 = 3 * n" "\<forall>k<3 * n. lro1 ! k = (if k < ?pub then k else 0)"
    by blast
  let ?body = "\<lambda>j lro. do {
            lro \<leftarrow> upd_opt lro (?pub + j) (XA (?cs ! j));
            lro \<leftarrow> upd_opt lro (n + ?pub + j) (XB (?cs ! j));
            upd_opt lro (2 * n + ?pub + j) (XC (?cs ! j))
          }"
  let ?P2 = "\<lambda>j lro. length lro = 3 * n \<and> (\<forall>k<3 * n. lro ! k = lro_content spr n j k)"
  have "\<exists>lro. foldM_opt ?body [0 ..< length ?cs] lro1 = Some lro \<and> ?P2 (length ?cs) lro"
  proof (rule foldM_opt_upt_inv[where P = ?P2])
    show "?P2 0 lro1" using l1(2,3) by (simp add: lro_content_def)
  next
    fix j s assume j: "j < length ?cs" and s: "?P2 j s"
    have r: "?pub + j < n" using j sz by simp
    let ?s' = "s[?pub + j := XA (?cs ! j), n + ?pub + j := XB (?cs ! j), 2 * n + ?pub + j := XC (?cs ! j)]"
    have run: "?body j s = Some ?s'"
      using s r by (simp add: upd_opt_def)
    have "\<forall>k<3 * n. ?s' ! k = lro_content spr n (Suc j) k"
    proof (intro allI impI)
      fix k assume k: "k < 3 * n"
      consider "k = ?pub + j" | "k = n + ?pub + j" | "k = 2 * n + ?pub + j"
        | "k \<noteq> ?pub + j" "k \<noteq> n + ?pub + j" "k \<noteq> 2 * n + ?pub + j" by blast
      then show "?s' ! k = lro_content spr n (Suc j) k"
      proof cases
        case 1
        then show ?thesis using s r by (simp add: lro_content_def)
      next
        case 2
        then show ?thesis using s r by (simp add: lro_content_def)
      next
        case 3
        then show ?thesis using s r by (simp add: lro_content_def)
      next
        case 4
        then have "?s' ! k = s ! k" by simp
        moreover have "lro_content spr n (Suc j) k = lro_content spr n j k"
          using 4 by (auto simp: lro_content_def less_Suc_eq)
        ultimately show ?thesis using s k by simp
      qed
    qed
    then show "\<exists>s'. ?body j s = Some s' \<and> ?P2 (Suc j) s'"
      using run s by simp
  qed
  then obtain lro2 where l2: "foldM_opt ?body [0 ..< length ?cs] lro1 = Some lro2" "?P2 (length ?cs) lro2"
    by blast
  have "build_lro spr n = Some lro2"
    using l1(1) l2(1) by (simp add: build_lro_def enumerate_as_map foldM_opt_map)
  then show ?thesis using l2(2) by blast
qed

lemma buildPermutation_links:
  assumes ids: "\<forall>c \<in> set (Constraints spr). XA c < nv \<and> XB c < nv \<and> XC c < nv"
    and pub: "Public spr \<le> nv" and nv: "0 < nv"
    and sz: "length (Constraints spr) + Public spr \<le> length (Ql trace)"
  shows "\<exists>lro perm s. build_lro spr (length (Ql trace)) = Some lro
      \<and> buildPermutation spr trace nv = Some (trace\<lparr>S := perm\<rparr>)
      \<and> length lro = 3 * length (Ql trace) \<and> length perm = length lro
      \<and> (\<forall>i<length lro. perm ! i = int (s i)) \<and> cycle_links lro s"
proof -
  let ?n = "length (Ql trace)"
  from build_lro_wf[OF ids pub nv sz]
  obtain lro where lro: "build_lro spr ?n = Some lro" "length lro = 3 * ?n" "\<forall>k<3 * ?n. lro ! k < nv"
    by blast
  have rng: "\<forall>i<length lro. lro ! i < nv" using lro(2,3) by simp
  from link_loop[OF rng]
  obtain perm1 cycle1 where l1:
      "foldM_opt (link_step lro) [0 ..< length lro] (replicate (length lro) (-1), replicate nv (-1)) = Some (perm1, cycle1)"
      "link_inv lro nv (length lro) (perm1, cycle1)"
    by (metis surj_pair)
  from l1(2) have lp: "length perm1 = length lro" and lc: "length cycle1 = nv"
    and pr: "\<forall>i<length lro. last_rel lro i (lro ! i) (perm1 ! i)"
    and cy: "\<forall>v<nv. last_rel lro (length lro) v (cycle1 ! v)"
    by (auto simp: link_inv_def)
  have rng2: "\<forall>i<length lro. lro ! i < length cycle1" using rng lc by simp
  from complete_loop[OF rng2 lp]
  obtain perm where l2: "foldM_opt (complete_step lro cycle1) [0 ..< length lro] perm1 = Some perm"
      "complete_inv lro perm1 cycle1 (length lro) perm"
    by blast
  from l2(2) have lperm: "length perm = length lro"
    and val: "\<forall>i<length lro. perm ! i = (if perm1 ! i = -1 then cycle1 ! (lro ! i) else perm1 ! i)"
    by (auto simp: complete_inv_def)
  have run: "buildPermutation spr trace nv = Some (trace\<lparr>S := perm\<rparr>)"
    using lro(1,2) l1(1) l2(1) by (simp add: buildPermutation_def)
  define s where "s = (\<lambda>i. nat (perm ! i))"
  have main: "perm ! i = int (s i) \<and>
        ((s i < i \<and> lro ! (s i) = lro ! i \<and> (\<forall>q. s i < q \<and> q < i \<longrightarrow> lro ! q \<noteq> lro ! i))
      \<or> ((\<forall>j<i. lro ! j \<noteq> lro ! i) \<and> s i < length lro \<and> lro ! (s i) = lro ! i
          \<and> (\<forall>q. s i < q \<and> q < length lro \<longrightarrow> lro ! q \<noteq> lro ! i)))"
    if i: "i < length lro" for i
  proof (cases "perm1 ! i = -1")
    case True
    then have first: "\<forall>j<i. lro ! j \<noteq> lro ! i"
      using pr i unfolding last_rel_def by fastforce
    have pi: "perm ! i = cycle1 ! (lro ! i)" using val i True by simp
    have "last_rel lro (length lro) (lro ! i) (cycle1 ! (lro ! i))" using cy rng i by simp
    then obtain p where p: "p < length lro" "cycle1 ! (lro ! i) = int p" "lro ! p = lro ! i"
        "\<forall>q. p < q \<and> q < length lro \<longrightarrow> lro ! q \<noteq> lro ! i"
      unfolding last_rel_def using i by blast
    then have "s i = p" using pi by (simp add: s_def)
    then show ?thesis using p pi first by simp
  next
    case False
    have pi: "perm ! i = perm1 ! i" using val i False by simp
    from pr i False obtain p where p: "p < i" "perm1 ! i = int p" "lro ! p = lro ! i"
        "\<forall>q. p < q \<and> q < i \<longrightarrow> lro ! q \<noteq> lro ! i"
      unfolding last_rel_def by blast
    then have "s i = p" using pi by (simp add: s_def)
    then show ?thesis using p pi by simp
  qed
  have "cycle_links lro s" unfolding cycle_links_def using main by blast
  moreover have "\<forall>i<length lro. perm ! i = int (s i)" using main by blast
  ultimately show ?thesis using lro(1,2) run lperm by blast
qed

text \<open>
  C5. For a circuit whose wire ids are ids of variables (below \<open>nbVariables\<close>, which also
  bounds the number of public inputs and is positive) and whose rows fit the solution size
  \<open>n\<close> (the length of \<open>Ql\<close>, which \<^verbatim>\<open>NewTrace\<close> makes the next power of two of
  constraints plus public inputs), \<^verbatim>\<open>buildPermutation\<close> does not panic and stores in
  \<open>trace.S\<close> a list \<open>perm\<close> of length \<open>3n\<close> that is a permutation of \<open>0, ..., 3n-1\<close> (no
  \<open>-1\<close> is left): the position \<open>perm[i]\<close> refers to the same variable as position \<open>i\<close>,
  and iterating \<open>perm\<close> from \<open>i\<close> visits exactly the positions of \<open>l\<parallel>r\<parallel>o\<close> that refer
  to the same variable as \<open>i\<close>. The table \<open>lro\<close> of the variable referred to at each
  position is the one the function builds, and the last conjunct says what it holds.
\<close>

theorem buildPermutation_cycles:
  assumes ids: "\<forall>c \<in> set (Constraints spr). XA c < nbVariables \<and> XB c < nbVariables \<and> XC c < nbVariables"
    and pub: "Public spr \<le> nbVariables" and nv: "0 < nbVariables"
    and sz: "length (Constraints spr) + Public spr \<le> length (Ql trace)"
  shows "\<exists>lro perm. build_lro spr (length (Ql trace)) = Some lro
      \<and> buildPermutation spr trace nbVariables = Some (trace\<lparr>S := perm\<rparr>)
      \<and> length lro = 3 * length (Ql trace)
      \<and> length perm = 3 * length (Ql trace)
      \<and> distinct perm
      \<and> set perm = int ` {..<3 * length (Ql trace)}
      \<and> (\<forall>i<3 * length (Ql trace). lro ! nat (perm ! i) = lro ! i)
      \<and> (\<forall>i<3 * length (Ql trace).
            {((\<lambda>k. nat (perm ! k)) ^^ t) i | t. True}
              = {j. j < 3 * length (Ql trace) \<and> lro ! j = lro ! i})
      \<and> (\<forall>k<3 * length (Ql trace).
            lro ! k = lro_content spr (length (Ql trace)) (length (Constraints spr)) k)"
proof -
  let ?m = "3 * length (Ql trace)"
  from buildPermutation_links[OF ids pub nv sz]
  obtain lro perm s where a: "build_lro spr (length (Ql trace)) = Some lro"
      "buildPermutation spr trace nbVariables = Some (trace\<lparr>S := perm\<rparr>)"
      "length lro = ?m" "length perm = length lro"
      "\<forall>i<length lro. perm ! i = int (s i)" "cycle_links lro s"
    by blast
  have bound: "\<forall>i<?m. s i < ?m \<and> lro ! (s i) = lro ! i"
    using cycle_links_bound[OF a(6)] a(3) by simp
  have inj: "inj_on s {..<?m}" using cycle_links_inj[OF a(6)] a(3) by simp
  have d: "distinct perm"
    unfolding distinct_conv_nth
  proof (intro allI impI)
    fix i j assume "i < length perm" "j < length perm" "i \<noteq> j"
    then have "s i \<noteq> s j" using inj a(3,4) by (auto dest: inj_onD)
    then show "perm ! i \<noteq> perm ! j" using a(5) \<open>i < length perm\<close> \<open>j < length perm\<close> a(4) by simp
  qed
  have sub: "set perm \<subseteq> int ` {..<?m}"
  proof
    fix x assume "x \<in> set perm"
    then obtain i where "i < length perm" "x = perm ! i" by (auto simp: in_set_conv_nth)
    then show "x \<in> int ` {..<?m}" using a(3,4,5) bound by auto
  qed
  have "card (set perm) = ?m" using d a(3,4) by (simp add: distinct_card)
  moreover have "card (int ` {..<?m}) = ?m" by (simp add: card_image)
  ultimately have st: "set perm = int ` {..<?m}"
    using sub by (metis card_subset_eq finite_imageI finite_lessThan)
  have cls: "\<forall>i<?m. lro ! nat (perm ! i) = lro ! i" using a(3,5) bound by simp
  have orb: "\<forall>i<?m. {((\<lambda>k. nat (perm ! k)) ^^ t) i | t. True} = {j. j < ?m \<and> lro ! j = lro ! i}"
  proof (intro allI impI)
    fix i assume i: "i < ?m"
    have eq: "((\<lambda>k. nat (perm ! k)) ^^ t) i = (s ^^ t) i" for t
    proof (induction t)
      case 0
      show ?case by simp
    next
      case (Suc t)
      have "(s ^^ t) i < length lro" using cycle_links_orbit_sub[OF a(6), of i t] i a(3) by simp
      then show ?case using Suc a(5) by simp
    qed
    show "{((\<lambda>k. nat (perm ! k)) ^^ t) i | t. True} = {j. j < ?m \<and> lro ! j = lro ! i}"
      using cycle_links_orbit[OF a(6), of i] i a(3) eq by simp
  qed
  have cont: "\<forall>k<?m. lro ! k = lro_content spr (length (Ql trace)) (length (Constraints spr)) k"
    using build_lro_content[OF sz] a(1) by auto
  show ?thesis using a(1,2,3,4) d st cls orb cont by auto
qed

lemma toy_lro: "build_lro toy_circuit 2 = Some [0, 1, 0, 1, 0, 0]"
  by code_simp

lemma toy_perm: "buildPermutation toy_circuit toy_trace 2 = Some toy_trace"
  by code_simp

theorem buildPermutation_cycles_witness:
  "list_all (\<lambda>c. XA c < 2 \<and> XB c < 2 \<and> XC c < 2) (Constraints toy_circuit)
   \<and> Public toy_circuit \<le> 2
   \<and> length (Constraints toy_circuit) + Public toy_circuit \<le> length (Ql toy_trace)
   \<and> build_lro toy_circuit 2 = Some [0, 1, 0, 1, 0, 0]
   \<and> buildPermutation toy_circuit toy_trace 2 = Some toy_trace
   \<and> S toy_trace = [5, 3, 0, 1, 2, 4]
   \<and> distinct (S toy_trace)
   \<and> set (S toy_trace) = int ` {..<6}
   \<and> {((\<lambda>k. nat (S toy_trace ! k)) ^^ t) 0 | t. True} = {j. j < 6 \<and> [0, 1, 0, 1, 0, 0 :: nat] ! j = 0}"
proof -
  have h1: "\<forall>c \<in> set (Constraints toy_circuit). XA c < 2 \<and> XB c < 2 \<and> XC c < 2"
    by (simp add: toy_circuit_def)
  have h2: "Public toy_circuit \<le> 2" by (simp add: toy_circuit_def)
  have h3: "0 < (2::nat)" by simp
  have h4: "length (Constraints toy_circuit) + Public toy_circuit \<le> length (Ql toy_trace)"
    by (simp add: toy_circuit_def toy_trace_def)
  have n: "length (Ql toy_trace) = 2" by (simp add: toy_trace_def)
  from buildPermutation_cycles[OF h1 h2 h3 h4]
  obtain lro perm where a: "build_lro toy_circuit (length (Ql toy_trace)) = Some lro"
      "buildPermutation toy_circuit toy_trace 2 = Some (toy_trace\<lparr>S := perm\<rparr>)"
      "distinct perm" "set perm = int ` {..<3 * length (Ql toy_trace)}"
      "\<forall>i<3 * length (Ql toy_trace).
            {((\<lambda>k. nat (perm ! k)) ^^ t) i | t. True}
              = {j. j < 3 * length (Ql toy_trace) \<and> lro ! j = lro ! i}"
    by blast
  have lro: "lro = [0, 1, 0, 1, 0, 0]" using a(1) n toy_lro by simp
  have "toy_trace\<lparr>S := perm\<rparr> = toy_trace" using a(2) toy_perm by simp
  then have "S (toy_trace\<lparr>S := perm\<rparr>) = S toy_trace" by simp
  then have perm: "perm = S toy_trace" by simp
  have o: "{((\<lambda>k. nat (S toy_trace ! k)) ^^ t) 0 | t. True} = {j. j < 6 \<and> [0, 1, 0, 1, 0, 0 :: nat] ! j = 0}"
    using a(5)[rule_format, of 0] n lro perm by simp
  have "S toy_trace = [5, 3, 0, 1, 2, 4]" by (simp add: toy_trace_def)
  then show ?thesis
    using h1 h2 h4 toy_lro toy_perm a(3,4) perm n o by (simp add: list_all_iff)
qed

section \<open>Results: blinding polynomials\<close>

lemma getRandomPolynomial_length:
  "0 \<le> n \<Longrightarrow> \<exists>cs. getRandomPolynomial rand n k = Some (cs, k + nat (n + 1)) \<and> length cs = nat (n + 1)
     \<and> (\<forall>i < nat (n + 1). cs ! i = rand (k + i))"
  by (simp add: getRandomPolynomial_def)

text \<open>
  C4. For the order \<open>-1\<close> the source's \<^verbatim>\<open>getRandomPolynomial\<close> does not return the zero
  polynomial with the single coefficient zero: it returns a polynomial over the empty (nil)
  coefficient slice, and so each of the four blinding polynomials that
  \<^verbatim>\<open>initBlindingPolynomials\<close> creates under the configured orders has no coefficient at all.
\<close>

theorem getRandomPolynomial_minus_one_empty:
  "getRandomPolynomial rand (-1) k = Some ([], k)
   \<and> getRandomPolynomial rand (-1) k \<noteq> Some ([0], k)
   \<and> initBlindingPolynomials rand k = Some ([[], [], [], []], k)"
  by (simp add: getRandomPolynomial_def initBlindingPolynomials_def
      order_blinding_L_def order_blinding_R_def order_blinding_O_def order_blinding_Z_def)

section \<open>Results: the domains and the quotient chunks\<close>

lemma np2_ge: "0 < p \<Longrightarrow> n \<le> np2 p n"
proof (induction p n rule: np2.induct)
  case (1 p n)
  show ?case
  proof (cases "n \<le> p \<or> p = 0")
    case True
    then show ?thesis using "1.prems" by (subst np2.simps) simp
  next
    case False
    then have "n \<le> np2 (2 * p) n" using "1.IH" "1.prems" by simp
    then show ?thesis using False by (subst np2.simps) simp
  qed
qed

lemma np2_mult: "0 < c \<Longrightarrow> 0 < p \<Longrightarrow> np2 (c * p) (c * n) = c * np2 p n"
proof (induction p n rule: np2.induct)
  case (1 p n)
  show ?case
  proof (cases "n \<le> p \<or> p = 0")
    case True
    then have "np2 (c * p) (c * n) = c * p" using "1.prems" by (subst np2.simps) auto
    moreover have "np2 p n = p" using True by (subst np2.simps) simp
    ultimately show ?thesis by simp
  next
    case False
    then have ih: "np2 (c * (2 * p)) (c * n) = c * np2 (2 * p) n" using "1.IH" "1.prems" by simp
    have "\<not> (c * n \<le> c * p \<or> c * p = 0)" using False "1.prems" by simp
    then have "np2 (c * p) (c * n) = np2 (2 * (c * p)) (c * n)"
      by (subst np2.simps) simp
    also have "\<dots> = c * np2 (2 * p) n" using ih by (simp add: mult.left_commute)
    also have "\<dots> = c * np2 p n" using False by (subst (2) np2.simps) simp
    finally show ?thesis .
  qed
qed

lemma NextPowerOfTwo_ge: "n \<le> NextPowerOfTwo n"
  by (simp add: NextPowerOfTwo_def np2_ge)

lemma NextPowerOfTwo_4: "0 < n \<Longrightarrow> NextPowerOfTwo (4 * n) = 4 * NextPowerOfTwo n"
proof -
  assume n: "0 < n"
  have "np2 1 (4 * n) = np2 2 (4 * n)" using n by (subst np2.simps) simp
  also have "\<dots> = np2 4 (4 * n)" using n by (subst np2.simps) simp
  also have "\<dots> = 4 * np2 1 n" using np2_mult[of 4 1 n] by simp
  finally show ?thesis by (simp add: NextPowerOfTwo_def)
qed

lemma NextPowerOfTwo_8: "0 < n \<Longrightarrow> NextPowerOfTwo (8 * n) = 8 * NextPowerOfTwo n"
proof -
  assume n: "0 < n"
  have "np2 1 (8 * n) = np2 2 (8 * n)" using n by (subst np2.simps) simp
  also have "\<dots> = np2 4 (8 * n)" using n by (subst np2.simps) simp
  also have "\<dots> = np2 8 (8 * n)" using n by (subst np2.simps) simp
  also have "\<dots> = 8 * np2 1 n" using np2_mult[of 8 1 n] by simp
  finally show ?thesis by (simp add: NextPowerOfTwo_def)
qed

lemma NextPowerOfTwo_small: "NextPowerOfTwo 0 = 1" "NextPowerOfTwo 1 = 1"
  by (simp_all add: NextPowerOfTwo_def np2.simps)

lemma evalPoly_Nil [simp]: "evalPoly [] x = 0"
  by (simp add: evalPoly_def)

lemma evalPoly_Cons [simp]: "evalPoly (c # cs) x = evalPoly cs x * x + c"
  by (simp add: evalPoly_def)

lemma evalPoly_append: "evalPoly (xs @ ys) x = evalPoly xs x + x ^ length xs * evalPoly ys x"
  by (induction xs) (simp_all add: algebra_simps)

lemma evalPoly_zeros: "\<forall>c \<in> set cs. c = 0 \<Longrightarrow> evalPoly cs x = 0"
  by (induction cs) simp_all

lemma newInstance_domains:
  assumes "newInstance E spr pk w = Some s"
  shows "s_domain0 s = NewDomain E (length (Constraints spr) + Public spr)"
    and "s_domain1 s = (if length (Constraints spr) + Public spr < 6
                        then NewDomain E (8 * (length (Constraints spr) + Public spr))
                        else NewDomain E (4 * (length (Constraints spr) + Public spr)))"
  using assms by (auto simp: newInstance_def Let_def split: bind_splits)

lemma large_domain_size:
  assumes acc: "2 \<le> NextPowerOfTwo m"
  shows "NextPowerOfTwo (if m < 6 then 8 * m else 4 * m) = (if m < 6 then 8 else 4) * NextPowerOfTwo m"
    and "3 * (NextPowerOfTwo m + 2) \<le> (if m < 6 then 8 else 4) * NextPowerOfTwo m"
proof -
  have m: "0 < m" using acc NextPowerOfTwo_small(1) by (cases m) auto
  show "NextPowerOfTwo (if m < 6 then 8 * m else 4 * m) = (if m < 6 then 8 else 4) * NextPowerOfTwo m"
    using m NextPowerOfTwo_4 NextPowerOfTwo_8 by simp
  show "3 * (NextPowerOfTwo m + 2) \<le> (if m < 6 then 8 else 4) * NextPowerOfTwo m"
    using acc NextPowerOfTwo_ge[of m] by auto
qed

lemma toy_setup: "Setup toy_ext toy_circuit toy_srs = Some (Inr (toy_pk, toy_vk))"
  by code_simp

lemma toy_newInstance: "newInstance toy_ext toy_circuit toy_pk [4, 2] = Some toy_instance"
  by code_simp

lemma slice_opt_Some:
  "a \<le> b \<Longrightarrow> b \<le> length xs \<Longrightarrow> slice_opt xs a b = Some (take (b - a) (drop a xs))"
  by (simp add: slice_opt_def)

text \<open>
  Let \<open>n\<close> be the cardinality of the small domain of a circuit that \<^verbatim>\<open>Setup\<close>
  accepts (\<open>n \<ge> 2\<close>), and let \<open>h\<close> have as many coefficients as the large domain (the
  numerator is allocated with \<^verbatim>\<open>domain1.Cardinality\<close> scalars and \<^verbatim>\<open>divideByXMinusOne\<close>
  transforms it in place). The large domain has \<open>8n\<close> elements when the system has fewer
  than 6 rows and \<open>4n\<close> otherwise, so \<open>h\<close> has at least \<open>3(n+2)\<close> coefficients and the
  three slice expressions do not panic: \<open>h1\<close>, \<open>h2\<close>, \<open>h3\<close> are the consecutive slices
  \<open>[0, n+2)\<close>, \<open>[n+2, 2(n+2))\<close>, \<open>[2(n+2), 3(n+2))\<close>, and
  \<open>H(X) = H\<^sub>1(X) + X\<^bsup>n+2\<^esup> H\<^sub>2(X) + X\<^bsup>2(n+2)\<^esup> H\<^sub>3(X) + X\<^bsup>3(n+2)\<^esup> T(X)\<close> where \<open>T\<close> holds
  the coefficients of \<open>h\<close> from \<open>3(n+2)\<close> on; the identity of the claim is the case where these
  are zero, that is where the quotient has the degree the source's comment gives it
  (below \<open>3(n+2)\<close>).
\<close>

theorem quotient_chunks:
  assumes inst: "newInstance E spr pk w = Some s0"
    and acc: "2 \<le> Cardinality (initFFTDomain E spr)"
    and len: "length h = Cardinality (s_domain1 s0)"
    and n: "n = Cardinality (s_domain0 s0)"
  shows "n = Cardinality (initFFTDomain E spr)
     \<and> Cardinality (s_domain1 s0) = (if length (Constraints spr) + Public spr < 6 then 8 else 4) * n
     \<and> 3 * (n + 2) \<le> length h
     \<and> (\<exists>c1 c2 c3.
           h1 (s0\<lparr>s_h := h\<rparr>) = Some c1 \<and> h2 (s0\<lparr>s_h := h\<rparr>) = Some c2 \<and> h3 (s0\<lparr>s_h := h\<rparr>) = Some c3
         \<and> length c1 = n + 2 \<and> length c2 = n + 2 \<and> length c3 = n + 2
         \<and> (\<forall>i<n + 2. c1 ! i = h ! i \<and> c2 ! i = h ! (n + 2 + i) \<and> c3 ! i = h ! (2 * (n + 2) + i))
         \<and> h = c1 @ c2 @ c3 @ drop (3 * (n + 2)) h
         \<and> (\<forall>x. evalPoly h x =
                  evalPoly c1 x + x ^ (n + 2) * evalPoly c2 x + x ^ (2 * (n + 2)) * evalPoly c3 x
                  + x ^ (3 * (n + 2)) * evalPoly (drop (3 * (n + 2)) h) x)
         \<and> ((\<forall>i. 3 * (n + 2) \<le> i \<and> i < length h \<longrightarrow> h ! i = 0) \<longrightarrow>
              (\<forall>x. evalPoly h x =
                  evalPoly c1 x + x ^ (n + 2) * evalPoly c2 x + x ^ (2 * (n + 2)) * evalPoly c3 x)))"
proof -
  let ?m = "length (Constraints spr) + Public spr"
  have d0: "s_domain0 s0 = NewDomain E ?m" using newInstance_domains(1)[OF inst] .
  have n0: "n = NextPowerOfTwo ?m" using n d0 by (simp add: NewDomain_def)
  have a: "n = Cardinality (initFFTDomain E spr)"
    using n0 by (simp add: initFFTDomain_def NewDomain_def Let_def)
  have acc': "2 \<le> NextPowerOfTwo ?m" using acc a n0 by simp
  have "Cardinality (s_domain1 s0) = NextPowerOfTwo (if ?m < 6 then 8 * ?m else 4 * ?m)"
    using newInstance_domains(2)[OF inst] by (simp add: NewDomain_def)
  then have b: "Cardinality (s_domain1 s0) = (if ?m < 6 then 8 else 4) * n"
    using large_domain_size(1)[OF acc'] n0 by simp
  have c: "3 * (n + 2) \<le> length h"
    using large_domain_size(2)[OF acc'] b len n0 by simp
  let ?c1 = "take (n + 2) h"
  let ?c2 = "take (n + 2) (drop (n + 2) h)"
  let ?c3 = "take (n + 2) (drop (2 * (n + 2)) h)"
  let ?s = "s0\<lparr>s_h := h\<rparr>"
  have r1: "h1 ?s = Some ?c1" using c n by (simp add: h1_def slice_opt_def)
  have r2: "h2 ?s = Some ?c2" using c n by (simp add: h2_def slice_opt_def)
  have r3: "h3 ?s = Some ?c3" using c n by (simp add: h3_def slice_opt_def)
  have l: "length ?c1 = n + 2" "length ?c2 = n + 2" "length ?c3 = n + 2" using c by simp_all
  have nth: "\<forall>i<n + 2. ?c1 ! i = h ! i \<and> ?c2 ! i = h ! (n + 2 + i) \<and> ?c3 ! i = h ! (2 * (n + 2) + i)"
    using c by simp
  have e2: "n + 2 + (n + 2) = 2 * (n + 2)" and e3: "n + 2 + 2 * (n + 2) = 3 * (n + 2)"
    by arith+
  have d2: "drop (n + 2) (drop (n + 2) h) = drop (2 * (n + 2)) h"
    by (simp only: drop_drop e2)
  have d3: "drop (n + 2) (drop (2 * (n + 2)) h) = drop (3 * (n + 2)) h"
    by (simp only: drop_drop e3)
  have split: "h = ?c1 @ ?c2 @ ?c3 @ drop (3 * (n + 2)) h"
    by (metis append_take_drop_id d2 d3)
  have ev: "evalPoly h x =
          evalPoly ?c1 x + x ^ (n + 2) * evalPoly ?c2 x + x ^ (2 * (n + 2)) * evalPoly ?c3 x
          + x ^ (3 * (n + 2)) * evalPoly (drop (3 * (n + 2)) h) x" for x
  proof -
    have "evalPoly h x = evalPoly (?c1 @ ?c2 @ ?c3 @ drop (3 * (n + 2)) h) x"
      using split by simp
    also have "\<dots> = evalPoly ?c1 x + x ^ (n + 2) * (evalPoly ?c2 x + x ^ (n + 2) *
          (evalPoly ?c3 x + x ^ (n + 2) * evalPoly (drop (3 * (n + 2)) h) x))"
      using l by (simp only: evalPoly_append)
    also have "\<dots> = evalPoly ?c1 x + x ^ (n + 2) * evalPoly ?c2 x + x ^ (2 * (n + 2)) * evalPoly ?c3 x
          + x ^ (3 * (n + 2)) * evalPoly (drop (3 * (n + 2)) h) x"
    proof -
      have p2: "x ^ (2 * (n + 2)) = x ^ (n + 2) * x ^ (n + 2)"
        by (simp only: e2[symmetric] power_add)
      have p3: "x ^ (3 * (n + 2)) = x ^ (n + 2) * (x ^ (n + 2) * x ^ (n + 2))"
        by (simp only: e3[symmetric] e2[symmetric] power_add)
      show ?thesis unfolding p2 p3 by (simp only: distrib_left mult.assoc add.assoc)
    qed
    finally show ?thesis .
  qed
  have tail: "(\<forall>i. 3 * (n + 2) \<le> i \<and> i < length h \<longrightarrow> h ! i = 0) \<longrightarrow>
              (\<forall>x. evalPoly h x =
                  evalPoly ?c1 x + x ^ (n + 2) * evalPoly ?c2 x + x ^ (2 * (n + 2)) * evalPoly ?c3 x)"
  proof (intro impI allI)
    fix x assume z: "\<forall>i. 3 * (n + 2) \<le> i \<and> i < length h \<longrightarrow> h ! i = 0"
    have "\<forall>c \<in> set (drop (3 * (n + 2)) h). c = 0"
    proof
      fix c assume "c \<in> set (drop (3 * (n + 2)) h)"
      then obtain k where "k < length h - 3 * (n + 2)" "c = h ! (3 * (n + 2) + k)"
        by (auto simp: in_set_conv_nth)
      then show "c = 0" using z by simp
    qed
    then have "evalPoly (drop (3 * (n + 2)) h) x = 0" by (rule evalPoly_zeros)
    then show "evalPoly h x =
        evalPoly ?c1 x + x ^ (n + 2) * evalPoly ?c2 x + x ^ (2 * (n + 2)) * evalPoly ?c3 x"
      using ev[of x] by simp
  qed
  show ?thesis
    using a b c r1 r2 r3 l nth split ev tail by blast
qed

theorem quotient_chunks_witness:
  "(\<exists>s0. newInstance toy_ext toy_circuit toy_pk [4, 2] = Some s0
        \<and> length toy_h = Cardinality (s_domain1 s0)
        \<and> Cardinality (s_domain0 s0) = 2
        \<and> Cardinality (s_domain1 s0) = 8 * 2
        \<and> h1 (s0\<lparr>s_h := toy_h\<rparr>) = Some [1, 2, 3, 4]
        \<and> h2 (s0\<lparr>s_h := toy_h\<rparr>) = Some [5, 6, 7, 8]
        \<and> h3 (s0\<lparr>s_h := toy_h\<rparr>) = Some [9, 10, 11, 12])
   \<and> 2 \<le> Cardinality (initFFTDomain toy_ext toy_circuit)
   \<and> evalPoly toy_h 2 = evalPoly [1, 2, 3, 4] 2 + 2 ^ 4 * evalPoly [5, 6, 7, 8] 2
                          + 2 ^ 8 * evalPoly [9, 10, 11, 12] 2"
proof -
  have acc: "2 \<le> Cardinality (initFFTDomain toy_ext toy_circuit)"
    by (simp add: toy_domain_eq toy_domain_def)
  have len: "length toy_h = Cardinality (s_domain1 toy_instance)"
    by (simp add: toy_h_def toy_instance_def)
  have n: "(2::nat) = Cardinality (s_domain0 toy_instance)"
    by (simp add: toy_instance_def toy_domain_def)
  from quotient_chunks[OF toy_newInstance acc len n]
  obtain c1 c2 c3 where c:
      "h1 (toy_instance\<lparr>s_h := toy_h\<rparr>) = Some c1"
      "h2 (toy_instance\<lparr>s_h := toy_h\<rparr>) = Some c2"
      "h3 (toy_instance\<lparr>s_h := toy_h\<rparr>) = Some c3"
      "(\<forall>i. 3 * (2 + 2) \<le> i \<and> i < length toy_h \<longrightarrow> toy_h ! i = 0) \<longrightarrow>
              (\<forall>x. evalPoly toy_h x =
                  evalPoly c1 x + x ^ (2 + 2) * evalPoly c2 x + x ^ (2 * (2 + 2)) * evalPoly c3 x)"
    by blast
  have v1: "h1 (toy_instance\<lparr>s_h := toy_h\<rparr>) = Some [1, 2, 3, 4]"
    by (simp add: h1_def slice_opt_def toy_instance_def toy_domain_def toy_h_def)
  have v2: "h2 (toy_instance\<lparr>s_h := toy_h\<rparr>) = Some [5, 6, 7, 8]"
    by (simp add: h2_def slice_opt_def toy_instance_def toy_domain_def toy_h_def)
  have v3: "h3 (toy_instance\<lparr>s_h := toy_h\<rparr>) = Some [9, 10, 11, 12]"
    by (simp add: h3_def slice_opt_def toy_instance_def toy_domain_def toy_h_def)
  have z: "\<forall>i. 3 * (2 + 2) \<le> i \<and> i < length toy_h \<longrightarrow> toy_h ! i = 0"
  proof (intro allI impI)
    fix i :: nat assume "3 * (2 + 2) \<le> i \<and> i < length toy_h"
    then have "i = 12 \<or> i = 13 \<or> i = 14 \<or> i = 15" by (auto simp: toy_h_def)
    then show "toy_h ! i = 0" by (auto simp: toy_h_def)
  qed
  have "evalPoly toy_h 2 = evalPoly c1 2 + 2 ^ (2 + 2) * evalPoly c2 2 + 2 ^ (2 * (2 + 2)) * evalPoly c3 2"
    using c(4) z by blast
  then have e: "evalPoly toy_h 2 = evalPoly [1, 2, 3, 4] 2 + 2 ^ 4 * evalPoly [5, 6, 7, 8] 2
                          + 2 ^ 8 * evalPoly [9, 10, 11, 12] 2"
    using c(1,2,3) v1 v2 v3 by simp
  have d: "Cardinality (s_domain0 toy_instance) = 2" "Cardinality (s_domain1 toy_instance) = 8 * 2"
    by (simp_all add: toy_instance_def toy_domain_def)
  show ?thesis
    using toy_newInstance len d v1 v2 v3 acc e by blast
qed

section \<open>Results: the scaling of the blinding polynomials\<close>

lemma scale_acc_length [simp]: "length (scale_acc a w cq) = length cq"
  by (induction cq arbitrary: a) simp_all

lemma scale_acc_nth: "j < length cq \<Longrightarrow> scale_acc a w cq ! j = cq ! j * (a * w ^ j)"
proof (induction cq arbitrary: a j)
  case Nil
  then show ?case by simp
next
  case (Cons c cq)
  show ?case
  proof (cases j)
    case 0
    then show ?thesis by simp
  next
    case (Suc k)
    then have "k < length cq" using Cons.prems by simp
    then show ?thesis using Cons.IH[of k "a * w"] Suc by (simp add: mult.assoc)
  qed
qed

lemma scaled_by_one: "scaled_by 1 q q"
  by (simp add: scaled_by_def)

lemma scaled_by_pass:
  assumes "scaled_by P q0 q" "tmp \<noteq> 0"
  shows "scaled_by (P * sh) q0 (map (\<lambda>c. c * inverse tmp) (scale_acc tmp sh q))"
  using assms by (simp add: scaled_by_def scale_acc_nth power_mult_distrib)

lemma scaled_by_back:
  assumes "scaled_by P q0 q" "P \<noteq> 0"
  shows "scalePowers q (inverse P) = q0"
proof (rule nth_equalityI)
  show "length (scalePowers q (inverse P)) = length q0"
    using assms(1) by (simp add: scalePowers_def scaled_by_def)
next
  fix j assume "j < length (scalePowers q (inverse P))"
  then have j: "j < length q0" "j < length q" using assms(1) by (simp_all add: scalePowers_def scaled_by_def)
  have "P ^ j * inverse P ^ j = 1" using assms(2) by (simp add: power_mult_distrib[symmetric])
  then show "scalePowers q (inverse P) ! j = q0 ! j"
    using assms(1) j by (simp add: scalePowers_def scale_acc_nth scaled_by_def mult.assoc)
qed

lemma fold_mult_prod: "fold (\<lambda>sh cs. cs * sh) xs (a::'a::field) = a * prod_list xs"
  by (induction xs arbitrary: a) (simp_all add: mult.assoc)

lemma blinding_passes:
  assumes nz: "\<forall>k<rho. prod_list (take (Suc k) shifters) ^ n \<noteq> 1" and len: "rho \<le> length shifters"
  shows "\<exists>bp'. foldM_opt (blinding_pass n shifters) [0 ..< rho] (1, bp) = Some (prod_list (take rho shifters), bp')
           \<and> list_all2 (scaled_by (prod_list (take rho shifters))) bp bp'"
proof -
  let ?P = "\<lambda>k (st :: 'a \<times> 'a list list). fst st = prod_list (take k shifters)
              \<and> list_all2 (scaled_by (prod_list (take k shifters))) bp (snd st)"
  have "\<exists>st. foldM_opt (blinding_pass n shifters) [0 ..< rho] (1, bp) = Some st \<and> ?P rho st"
  proof (rule foldM_opt_upt_inv[where P = ?P])
    show "?P 0 (1, bp)" by (simp add: list_all2_same scaled_by_one)
  next
    fix k st assume k: "k < rho" and st: "?P k st"
    obtain coset b where cb: "st = (coset, b)" by (cases st)
    let ?sh = "shifters ! k"
    have tk: "take (Suc k) shifters = take k shifters @ [?sh]"
      using k len by (simp add: take_Suc_conv_app_nth)
    have pk: "prod_list (take (Suc k) shifters) = coset * ?sh" using st cb tk by simp
    let ?tmp = "(coset * ?sh) ^ n - 1"
    have "prod_list (take (Suc k) shifters) ^ n \<noteq> 1" using nz k by blast
    then have tmp: "?tmp \<noteq> 0" unfolding pk by simp
    let ?b' = "map (map (\<lambda>c. c * inverse ?tmp)) (map (scale_acc ?tmp ?sh) b)"
    have run: "blinding_pass n shifters k st = Some (coset * ?sh, ?b')"
      using cb k len by (simp add: blinding_pass_def nth_opt_def Let_def)
    have "list_all2 (scaled_by (coset * ?sh)) bp ?b'"
      using st cb scaled_by_pass[OF _ tmp, of coset _ _ ?sh]
      by (simp add: list_all2_conv_all_nth)
    then show "\<exists>s'. blinding_pass n shifters k st = Some s' \<and> ?P (Suc k) s'"
      using run pk by simp
  qed
  then show ?thesis by force
qed

lemma coset_power_ne_one:
  fixes g w :: "'a::field"
  assumes w: "w ^ (rho * n) = 1" and g: "g ^ (rho * n) \<noteq> 1"
  shows "(g * w ^ k) ^ n \<noteq> 1"
proof
  assume "(g * w ^ k) ^ n = 1"
  then have "((g * w ^ k) ^ n) ^ rho = 1" by simp
  then have "(g * w ^ k) ^ (rho * n) = 1" by (simp add: power_mult mult.commute)
  then have "g ^ (rho * n) * (w ^ (rho * n)) ^ k = 1"
    by (simp add: power_mult_distrib power_mult[symmetric] mult.commute)
  then show False using w g by simp
qed

text \<open>
  C6. Over a field, when the generator \<open>w\<close> of the large domain is a root of unity of the
  domain's order \<open>N = \<rho>\<cdot>n\<close> and the coset shift \<open>g\<close> is not (\<open>g \<noteq> 0\<close>, \<open>g\<^sup>N \<noteq> 1\<close>), every
  \<open>coset\<^sup>n - 1\<close> that the loop inverts is non-zero, and the scalings of the blinding
  polynomials compose to the identity: at the end of \<^verbatim>\<open>computeNumerator\<close>, after the
  scale-back step, \<open>s.bp\<close> holds the coefficient vectors it held on entry.
\<close>

theorem blinding_scaling_restored:
  assumes n: "0 < Cardinality (s_domain0 s)" and rho: "0 < rho"
    and card: "Cardinality (s_domain1 s) = rho * Cardinality (s_domain0 s)"
    and g0: "FrMultiplicativeGen (s_domain1 s) \<noteq> 0"
    and w: "Generator (s_domain1 s) ^ Cardinality (s_domain1 s) = 1"
    and g: "FrMultiplicativeGen (s_domain1 s) ^ Cardinality (s_domain1 s) \<noteq> 1"
  shows "computeNumerator_bp s = Some (s_bp s)"
proof -
  let ?n = "Cardinality (s_domain0 s)"
  let ?g = "FrMultiplicativeGen (s_domain1 s)"
  let ?w = "Generator (s_domain1 s)"
  let ?sh = "?g # replicate (rho - 1) ?w"
  have div: "Cardinality (s_domain1 s) div ?n = rho" using card n by simp
  have mk: "make_shifters (s_domain1 s) rho = Some ?sh" using rho by (simp add: make_shifters_def)
  have w0: "?w \<noteq> 0"
  proof
    assume "?w = 0"
    moreover have "0 < rho * ?n" using n rho by simp
    ultimately show False using w card by (simp add: power_0_left)
  qed
  have tk: "take (Suc k) ?sh = ?g # replicate k ?w" if "k < rho" for k
    using that by (simp add: min_def)
  have nz: "\<forall>k<rho. prod_list (take (Suc k) ?sh) ^ ?n \<noteq> 1"
  proof (intro allI impI)
    fix k assume k: "k < rho"
    have "(?g * ?w ^ k) ^ ?n \<noteq> 1"
      using coset_power_ne_one[of ?w rho ?n ?g k] w g card by simp
    then show "prod_list (take (Suc k) ?sh) ^ ?n \<noteq> 1" using tk[OF k] by simp
  qed
  have len: "rho \<le> length ?sh" using rho by simp
  have full: "take rho ?sh = ?sh" using rho by simp
  from blinding_passes[OF nz len, of "s_bp s"] full
  obtain bp' where bp': "foldM_opt (blinding_pass ?n ?sh) [0 ..< rho] (1, s_bp s) = Some (prod_list ?sh, bp')"
      "list_all2 (scaled_by (prod_list ?sh)) (s_bp s) bp'"
    by auto
  have P0: "prod_list ?sh \<noteq> 0" using g0 w0 by simp
  have cs: "fold (\<lambda>sh cs. cs * sh) (tl ?sh) (hd ?sh) = prod_list ?sh"
    by (simp only: list.sel fold_mult_prod prod_list.Cons)
  have restore: "map (\<lambda>q. scalePowers q (inverse (prod_list ?sh))) bp' = s_bp s"
  proof (rule nth_equalityI)
    show "length (map (\<lambda>q. scalePowers q (inverse (prod_list ?sh))) bp') = length (s_bp s)"
      using bp'(2) by (simp add: list_all2_lengthD)
  next
    fix i assume "i < length (map (\<lambda>q. scalePowers q (inverse (prod_list ?sh))) bp')"
    then have i: "i < length bp'" by simp
    then have "scaled_by (prod_list ?sh) (s_bp s ! i) (bp' ! i)"
      using bp'(2) by (simp add: list_all2_conv_all_nth)
    from scaled_by_back[OF this P0] i
    show "map (\<lambda>q. scalePowers q (inverse (prod_list ?sh))) bp' ! i = s_bp s ! i" by simp
  qed
  show ?thesis
    unfolding computeNumerator_bp_def Let_def
    using n div mk bp'(1) cs restore by simp
qed

theorem blinding_scaling_restored_witness:
  "0 < Cardinality (s_domain0 toy_instance)
   \<and> Cardinality (s_domain1 toy_instance) = 8 * Cardinality (s_domain0 toy_instance)
   \<and> FrMultiplicativeGen (s_domain1 toy_instance) \<noteq> 0
   \<and> Generator (s_domain1 toy_instance) ^ Cardinality (s_domain1 toy_instance) = 1
   \<and> FrMultiplicativeGen (s_domain1 toy_instance) ^ Cardinality (s_domain1 toy_instance) \<noteq> 1
   \<and> computeNumerator_bp (toy_instance\<lparr>s_bp := [[1, 2], [3], [], [5, 6, 7]]\<rparr>)
       = Some [[1, 2], [3], [], [5, 6, 7]]"
proof -
  let ?s = "toy_instance\<lparr>s_bp := [[1, 2], [3], [], [5, 6, 7]]\<rparr>"
  have h: "0 < Cardinality (s_domain0 ?s)" "0 < (8::nat)"
      "Cardinality (s_domain1 ?s) = 8 * Cardinality (s_domain0 ?s)"
      "FrMultiplicativeGen (s_domain1 ?s) \<noteq> 0"
      "Generator (s_domain1 ?s) ^ Cardinality (s_domain1 ?s) = 1"
      "FrMultiplicativeGen (s_domain1 ?s) ^ Cardinality (s_domain1 ?s) \<noteq> 1"
    by (simp_all add: toy_instance_def toy_domain_def)
  from blinding_scaling_restored[OF h]
  have "computeNumerator_bp ?s = Some (s_bp ?s)" .
  then show ?thesis using h by simp
qed

lemma computeNumerator_bp_toy_value:
  "computeNumerator_bp (toy_instance\<lparr>s_bp := [[1, 2], [3], [], [5, 6, 7]]\<rparr>)
       = Some [[1, 2], [3], [], [5, 6, 7]]"
  by code_simp

section \<open>Results: the challenges\<close>

lemma fold_fs_Bind_log:
  "fs_log (fold (\<lambda>p fs. fs_Bind fs l (Point p)) ps fs) = fs_log fs @ map (\<lambda>p. FsBind l (Point p)) ps"
  by (induction ps arbitrary: fs) (simp_all add: fs_Bind_def)

lemma fold_fs_Bind_labels:
  "fs_labels (fold (\<lambda>p fs. fs_Bind fs l (Point p)) ps fs) = fs_labels fs"
  by (induction ps arbitrary: fs) (simp_all add: fs_Bind_def)

lemma deriveRandomness_log:
  "fs_log (fst (deriveRandomness chal fs l ps))
     = fs_log fs @ map (\<lambda>p. FsBind l (Point p)) ps @ [FsChallenge l]"
  "snd (deriveRandomness chal fs l ps)
     = chal (fs_log fs @ map (\<lambda>p. FsBind l (Point p)) ps @ [FsChallenge l])"
  "fs_labels (fst (deriveRandomness chal fs l ps)) = fs_labels fs"
  by (simp_all add: deriveRandomness_def fs_ComputeChallenge_def Let_def fold_fs_Bind_log
      fold_fs_Bind_labels)

lemma deriveGammaAndBeta_Some:
  assumes "deriveGammaAndBeta chal s0 = Some s1"
  shows "Public (s_spr s0) \<le> length (s_fullWitness s0)"
    and "fs_log (s_fs s1) = fs_log (s_fs s0) @
          [FsBind ''gamma'' (PublicData (Vk (s_pk s0)) (take (Public (s_spr s0)) (s_fullWitness s0))),
           FsBind ''gamma'' (Point (LROEntangled (s_proof s0))),
           FsChallenge ''gamma'', FsChallenge ''beta'']"
    and "s_gamma s1 = chal (fs_log (s_fs s0) @
          [FsBind ''gamma'' (PublicData (Vk (s_pk s0)) (take (Public (s_spr s0)) (s_fullWitness s0))),
           FsBind ''gamma'' (Point (LROEntangled (s_proof s0))),
           FsChallenge ''gamma''])"
    and "s_beta s1 = chal (fs_log (s_fs s1))"
    and "fs_labels (s_fs s1) = fs_labels (s_fs s0)"
  using assms
  by (auto simp: deriveGammaAndBeta_def slice_opt_def bindPublicData_def fs_Bind_def
      deriveRandomness_def fs_ComputeChallenge_def Let_def split: if_splits)

lemma deriveAlpha_log:
  "fs_log (s_fs (deriveAlpha chal s)) = fs_log (s_fs s)
      @ map (\<lambda>c. FsBind ''alpha'' (Point c)) (Bsb22Commitments (s_proof s))
      @ [FsBind ''alpha'' (Point (ZEntangled (s_proof s))), FsChallenge ''alpha'']"
  "s_alpha (deriveAlpha chal s) = chal (fs_log (s_fs (deriveAlpha chal s)))"
  "fs_labels (s_fs (deriveAlpha chal s)) = fs_labels (s_fs s)"
  using deriveRandomness_log[of chal "s_fs s" "''alpha''" "Bsb22Commitments (s_proof s) @ [ZEntangled (s_proof s)]"]
  by (simp_all add: deriveAlpha_def Let_def split_beta)

lemma deriveZeta_log:
  "fs_log (s_fs (deriveZeta chal s)) = fs_log (s_fs s)
      @ [FsBind ''zeta'' (Point (HEntangled (s_proof s))), FsChallenge ''zeta'']"
  "s_zeta (deriveZeta chal s) = chal (fs_log (s_fs (deriveZeta chal s)))"
  "fs_labels (s_fs (deriveZeta chal s)) = fs_labels (s_fs s)"
  using deriveRandomness_log[of chal "s_fs s" "''zeta''" "[HEntangled (s_proof s)]"]
  by (simp_all add: deriveZeta_def Let_def split_beta)

text \<open>
  C9. The transcript is created with the labels \<open>gamma, beta, alpha, zeta\<close> in this order.
  The only stages that call it are \<^verbatim>\<open>deriveGammaAndBeta\<close>, \<^verbatim>\<open>deriveAlpha\<close> and
  \<^verbatim>\<open>deriveZeta\<close>, which the channels order this way; whatever the stages in between do to
  the rest of the instance (\<open>s1'\<close> and \<open>s2'\<close> are the instance when \<^verbatim>\<open>deriveAlpha\<close> and
  \<^verbatim>\<open>deriveZeta\<close> start), the calls made on the transcript are: bind the public data and
  then the entangled \<open>L\<parallel>R\<parallel>O\<close> commitment to \<open>gamma\<close>, compute \<open>gamma\<close>, compute \<open>beta\<close> with
  no binding, bind every custom-gate commitment and then the entangled \<open>Z\<close> commitment to
  \<open>alpha\<close>, compute \<open>alpha\<close>, bind the entangled quotient commitment to \<open>zeta\<close>, compute
  \<open>zeta\<close>. Each challenge is the transcript's value at its computation.
\<close>

theorem challenge_bindings_in_order:
  assumes fresh: "s_fs s0 = NewTranscript [''gamma'', ''beta'', ''alpha'', ''zeta'']"
    and g: "deriveGammaAndBeta chal s0 = Some s1"
    and z: "s_fs s1' = s_fs s1"
    and a: "s2 = deriveAlpha chal s1'"
    and h: "s_fs s2' = s_fs s2"
    and e: "s3 = deriveZeta chal s2'"
  shows "fs_labels (s_fs s3) = [''gamma'', ''beta'', ''alpha'', ''zeta'']
     \<and> fs_log (s_fs s3) =
         [FsBind ''gamma'' (PublicData (Vk (s_pk s0)) (take (Public (s_spr s0)) (s_fullWitness s0))),
          FsBind ''gamma'' (Point (LROEntangled (s_proof s0))),
          FsChallenge ''gamma'',
          FsChallenge ''beta'']
         @ map (\<lambda>c. FsBind ''alpha'' (Point c)) (Bsb22Commitments (s_proof s1'))
         @ [FsBind ''alpha'' (Point (ZEntangled (s_proof s1'))),
            FsChallenge ''alpha'',
            FsBind ''zeta'' (Point (HEntangled (s_proof s2'))),
            FsChallenge ''zeta'']
     \<and> s_gamma s1 = chal (take 3 (fs_log (s_fs s3)))
     \<and> s_beta s1 = chal (take 4 (fs_log (s_fs s3)))
     \<and> s_alpha s2 = chal (take (6 + length (Bsb22Commitments (s_proof s1'))) (fs_log (s_fs s3)))
     \<and> s_zeta s3 = chal (fs_log (s_fs s3))"
proof -
  have l0: "fs_log (s_fs s0) = []" "fs_labels (s_fs s0) = [''gamma'', ''beta'', ''alpha'', ''zeta'']"
    using fresh by (simp_all add: NewTranscript_def)
  note g1 = deriveGammaAndBeta_Some[OF g]
  have l1: "fs_log (s_fs s1') =
          [FsBind ''gamma'' (PublicData (Vk (s_pk s0)) (take (Public (s_spr s0)) (s_fullWitness s0))),
           FsBind ''gamma'' (Point (LROEntangled (s_proof s0))),
           FsChallenge ''gamma'', FsChallenge ''beta'']"
    using g1(2) l0 z by simp
  have l2: "fs_log (s_fs s2') = fs_log (s_fs s1')
      @ map (\<lambda>c. FsBind ''alpha'' (Point c)) (Bsb22Commitments (s_proof s1'))
      @ [FsBind ''alpha'' (Point (ZEntangled (s_proof s1'))), FsChallenge ''alpha'']"
    using deriveAlpha_log(1)[of chal s1'] a h by simp
  have l3: "fs_log (s_fs s3) = fs_log (s_fs s2')
      @ [FsBind ''zeta'' (Point (HEntangled (s_proof s2'))), FsChallenge ''zeta'']"
    using deriveZeta_log(1)[of chal s2'] e by simp
  have lab: "fs_labels (s_fs s3) = [''gamma'', ''beta'', ''alpha'', ''zeta'']"
    using deriveZeta_log(3)[of chal s2'] deriveAlpha_log(3)[of chal s1'] g1(5) l0 z a h e by simp
  have log: "fs_log (s_fs s3) =
         [FsBind ''gamma'' (PublicData (Vk (s_pk s0)) (take (Public (s_spr s0)) (s_fullWitness s0))),
          FsBind ''gamma'' (Point (LROEntangled (s_proof s0))),
          FsChallenge ''gamma'',
          FsChallenge ''beta'']
         @ map (\<lambda>c. FsBind ''alpha'' (Point c)) (Bsb22Commitments (s_proof s1'))
         @ [FsBind ''alpha'' (Point (ZEntangled (s_proof s1'))),
            FsChallenge ''alpha'',
            FsBind ''zeta'' (Point (HEntangled (s_proof s2'))),
            FsChallenge ''zeta'']"
    using l1 l2 l3 by simp
  have cg: "s_gamma s1 = chal (take 3 (fs_log (s_fs s3)))"
    using g1(3) l0 log by simp
  have cb: "s_beta s1 = chal (take 4 (fs_log (s_fs s3)))"
    using g1(4) l1 z log by simp
  have len2: "length (fs_log (s_fs s2)) = 6 + length (Bsb22Commitments (s_proof s1'))"
    using l2 l1 h by simp
  have "fs_log (s_fs s3) = fs_log (s_fs s2)
      @ [FsBind ''zeta'' (Point (HEntangled (s_proof s2'))), FsChallenge ''zeta'']"
    using l3 h by simp
  then have "take (length (fs_log (s_fs s2))) (fs_log (s_fs s3)) = fs_log (s_fs s2)"
    by simp
  then have ca: "s_alpha s2 = chal (take (6 + length (Bsb22Commitments (s_proof s1'))) (fs_log (s_fs s3)))"
    using deriveAlpha_log(2)[of chal s1'] a len2 by simp
  have cz: "s_zeta s3 = chal (fs_log (s_fs s3))"
    using deriveZeta_log(2)[of chal s2'] e by simp
  show ?thesis using lab log cg cb ca cz by blast
qed

theorem challenge_bindings_in_order_witness:
  "\<exists>s1. deriveGammaAndBeta toy_chal (toy_instance\<lparr>s_proof := toy_proof1\<rparr>) = Some s1
     \<and> s_fs (toy_instance\<lparr>s_proof := toy_proof1\<rparr>)
          = NewTranscript [''gamma'', ''beta'', ''alpha'', ''zeta'']
     \<and> fs_log (s_fs (deriveZeta toy_chal
            ((deriveAlpha toy_chal (s1\<lparr>s_proof := toy_proof2\<rparr>))\<lparr>s_proof := toy_proof3\<rparr>))) =
         [FsBind ''gamma'' (PublicData toy_vk [4]),
          FsBind ''gamma'' (Point 7),
          FsChallenge ''gamma'',
          FsChallenge ''beta'',
          FsBind ''alpha'' (Point 8),
          FsChallenge ''alpha'',
          FsBind ''zeta'' (Point 11),
          FsChallenge ''zeta'']
     \<and> s_gamma s1 = 3 \<and> s_beta s1 = 4"
proof -
  let ?s0 = "toy_instance\<lparr>s_proof := toy_proof1\<rparr>"
  have fresh: "s_fs ?s0 = NewTranscript [''gamma'', ''beta'', ''alpha'', ''zeta'']"
    by (simp add: toy_instance_def NewTranscript_def)
  obtain s1 where g: "deriveGammaAndBeta toy_chal ?s0 = Some s1"
    by (simp add: deriveGammaAndBeta_def slice_opt_def toy_instance_def toy_circuit_def
        Let_def split_beta)
  let ?s1' = "s1\<lparr>s_proof := toy_proof2\<rparr>"
  let ?s2 = "deriveAlpha toy_chal ?s1'"
  let ?s2' = "?s2\<lparr>s_proof := toy_proof3\<rparr>"
  let ?s3 = "deriveZeta toy_chal ?s2'"
  have z: "s_fs ?s1' = s_fs s1" and h: "s_fs ?s2' = s_fs ?s2" by simp_all
  from challenge_bindings_in_order[OF fresh g z refl h refl]
  have r: "fs_log (s_fs ?s3) =
         [FsBind ''gamma'' (PublicData (Vk (s_pk ?s0)) (take (Public (s_spr ?s0)) (s_fullWitness ?s0))),
          FsBind ''gamma'' (Point (LROEntangled (s_proof ?s0))),
          FsChallenge ''gamma'',
          FsChallenge ''beta'']
         @ map (\<lambda>c. FsBind ''alpha'' (Point c)) (Bsb22Commitments (s_proof ?s1'))
         @ [FsBind ''alpha'' (Point (ZEntangled (s_proof ?s1'))),
            FsChallenge ''alpha'',
            FsBind ''zeta'' (Point (HEntangled (s_proof ?s2'))),
            FsChallenge ''zeta'']"
    and c: "s_gamma s1 = toy_chal (take 3 (fs_log (s_fs ?s3)))"
       "s_beta s1 = toy_chal (take 4 (fs_log (s_fs ?s3)))"
    by blast+
  have v: "fs_log (s_fs ?s3) =
         [FsBind ''gamma'' (PublicData toy_vk [4]),
          FsBind ''gamma'' (Point 7),
          FsChallenge ''gamma'',
          FsChallenge ''beta'',
          FsBind ''alpha'' (Point 8),
          FsChallenge ''alpha'',
          FsBind ''zeta'' (Point 11),
          FsChallenge ''zeta'']"
    unfolding r
    by (simp add: toy_instance_def toy_pk_def toy_circuit_def toy_proof1_def toy_proof2_def
        toy_proof3_def)
  have "s_gamma s1 = 3" "s_beta s1 = 4" using c unfolding v by (simp_all add: toy_chal_def)
  then show ?thesis using g fresh v by blast
qed

section \<open>Results: the entangled commitments\<close>

lemma lro_main_first:
  "foldM_opt (lro_step (cl, None) (cr, None) (co, None)) [MainT, GoL, GoR, GoO, MainT] lro_init =
     Some \<lparr>var_l = cl, var_r = cr, var_o = co, done_l = True, done_r = True, done_o = True,
           group_err = None, main_pc = 2, entangled = 0\<rparr>"
  by (simp add: lro_init_def first_err_def)

lemma lro_main_last:
  "foldM_opt (lro_step (cl, None) (cr, None) (co, None)) [GoL, GoR, GoO, MainT, MainT] lro_init =
     Some \<lparr>var_l = cl, var_r = cr, var_o = co, done_l = True, done_r = True, done_o = True,
           group_err = None, main_pc = 2, entangled = cl + cr + co\<rparr>"
  by (simp add: lro_init_def first_err_def)

text \<open>
  C3. On the solved instance of \<open>x \<cdot> x = y\<close> the three entangled commitments are 51, -15
  and -30, and their sum is 6. \<^verbatim>\<open>commitToLRO\<close> returns without error under every schedule
  below, but \<open>proof.LROEntangled\<close> is this sum only when the three goroutines finish before
  the caller's addition: when the caller runs first (it does not wait before adding) the
  stored digest is computed from the three zero digests and is 0, and when only the
  goroutine of \<open>L\<close> has finished it is 51.
\<close>

theorem commitToLRO_adds_before_wait:
  "commitToEntangledPolyAndBlinding toy_ext (\<lambda>vk. 15) toy_solved [4, 2] [] 8 = Some (51, None)
   \<and> commitToEntangledPolyAndBlinding toy_ext (\<lambda>vk. 15) toy_solved [0, 2] [] 9 = Some (- 15, None)
   \<and> commitToEntangledPolyAndBlinding toy_ext (\<lambda>vk. 15) toy_solved [0, 4] [] 10 = Some (- 30, None)
   \<and> map_option (\<lambda>(s', err). (LROEntangled (s_proof s'), err))
        (commitToLRO toy_ext (\<lambda>vk. 15) toy_solved [GoL, GoR, GoO, MainT, MainT]) = Some (6, None)
   \<and> map_option (\<lambda>(s', err). (LROEntangled (s_proof s'), err))
        (commitToLRO toy_ext (\<lambda>vk. 15) toy_solved [MainT, GoL, GoR, GoO, MainT]) = Some (0, None)
   \<and> map_option (\<lambda>(s', err). (LROEntangled (s_proof s'), err))
        (commitToLRO toy_ext (\<lambda>vk. 15) toy_solved [GoL, MainT, GoR, GoO, MainT]) = Some (51, None)"
  by code_simp

lemma Setup_leaves_Qcp_empty:
  assumes "Setup E spr srs = Some (Inr (pk, vk))"
  shows "Vk_Qcp vk = []" and "Vk pk = vk"
  using assms
  by (auto simp: Setup_def commitTrace_def Let_def split: if_splits bind_splits sum.splits)

text \<open>
  C10. For the circuit \<open>x \<cdot> x = y\<close> with one custom-gate commitment, \<^verbatim>\<open>Setup\<close> succeeds on
  the SRS of 64 points; the trace has one \<open>Qcp\<close> polynomial, so the stride of
  \<^verbatim>\<open>commitTrace\<close> is \<open>15 + 2\<cdot>1 = 17\<close>, while the verifying key that \<^verbatim>\<open>Setup\<close> returns has
  an empty \<open>Qcp\<close> (no code of \<^verbatim>\<open>Setup\<close> assigns the field), so the stride that
  \<^verbatim>\<open>commitToQuotient\<close> computes from it is 15.
\<close>

theorem stride_commitTrace_differs_from_commitToQuotient:
  "Setup toy_ext toy_circuit_commit toy_srs
     = Some (Inr (\<lparr>Kzg = toy_srs, Vk = toy_vk_commit\<rparr>, toy_vk_commit))
   \<and> NewTrace toy_ext toy_circuit_commit (initFFTDomain toy_ext toy_circuit_commit)
       = Some toy_trace_commit
   \<and> length (Qcp toy_trace_commit) = 1
   \<and> commitTrace_t toy_trace_commit = 17
   \<and> length (Vk_Qcp toy_vk_commit) = 0
   \<and> commitToQuotient_t toy_vk_commit = 15"
  by code_simp

section \<open>Results: the batch opening\<close>

lemma batchOpening_args_chain:
  assumes run: "batchOpening_args E nd s = Some (polys, digests, points)"
  shows "\<exists>p8 p9 p16 p17 c1 c2 c3.
      p8 = (replicate (nd (Vk (s_pk s))) [])
             [setup_ql := ext_ToCanonical E (s_domain0 s) (Ql (s_trace s)),
              setup_qr := ext_ToCanonical E (s_domain0 s) (Qr (s_trace s)),
              setup_qm := ext_ToCanonical E (s_domain0 s) (Qm (s_trace s)),
              setup_qo := ext_ToCanonical E (s_domain0 s) (Qo (s_trace s)),
              setup_qk_incomplete := ext_ToCanonical E (s_domain0 s) (Qk (s_trace s)),
              setup_s1 := ext_ToCanonical E (s_domain0 s) (S1 (s_trace s)),
              setup_s2 := ext_ToCanonical E (s_domain0 s) (S2 (s_trace s)),
              setup_s3 := ext_ToCanonical E (s_domain0 s) (S3 (s_trace s))]
    \<and> setup_s3 < nd (Vk (s_pk s))
    \<and> foldM_opt (\<lambda>i p0. do {
                 q \<leftarrow> nth_opt (Qcp (s_trace s)) i;
                 upd_opt p0 (setup_s3 + 1 + i) (ext_ToCanonical E (s_domain0 s) q)
               }) [0 ..< length (Qcp (s_trace s))] p8 = Some p9
    \<and> id_Z < length (s_x s) \<and> id_Bz < length (s_bp s)
    \<and> h1 s = Some c1 \<and> h2 s = Some c2 \<and> h3 s = Some c3
    \<and> prover_h_3 + length (Qcp (s_trace s)) < length p9
    \<and> p16 = p9
             [prover_l + length (Qcp (s_trace s)) := getBlindedCoefficients (s_x s ! id_L) (s_bp s ! id_Bl),
              prover_r + length (Qcp (s_trace s)) := getBlindedCoefficients (s_x s ! id_R) (s_bp s ! id_Br),
              prover_o + length (Qcp (s_trace s)) := getBlindedCoefficients (s_x s ! id_O) (s_bp s ! id_Bo),
              prover_z + length (Qcp (s_trace s)) := getBlindedCoefficients (s_x s ! id_Z) (s_bp s ! id_Bz),
              prover_h_1 + length (Qcp (s_trace s)) := c1,
              prover_h_2 + length (Qcp (s_trace s)) := c2,
              prover_h_3 + length (Qcp (s_trace s)) := c3]
    \<and> foldM_opt (\<lambda>i p0. do {
                 q \<leftarrow> nth_opt (s_x s) (id_Qci + 2 * i + 1);
                 upd_opt p0 (number_polynomials + length (Qcp (s_trace s)) + i) (ext_ToCanonical E (s_domain0 s) q)
               }) [0 ..< length (Qcp (s_trace s))] p16 = Some p17
    \<and> polys = [p17, [getBlindedCoefficients (s_x s ! id_Z) (s_bp s ! id_Bz)]]
    \<and> digests = [fold (\<lambda>c d. d + c) (Bsb22Commitments (s_proof s))
                   (Qpublic (Vk (s_pk s)) + LROEntangled (s_proof s) + ZEntangled (s_proof s)
                      + HEntangled (s_proof s)),
                  ProofZ (s_proof s)]
    \<and> points = [[s_zeta s], [s_zeta s ^ nd (Vk (s_pk s)) * Generator (s_domain0 s)]]"
  using run unfolding batchOpening_args_def Let_def
  apply (clarsimp simp: bind_eq_Some_conv)
  apply (auto dest!: upd_opt_SomeD nth_opt_SomeD)
  done

text \<open>
  C2 (amended). When \<^verbatim>\<open>batchOpening\<close> reaches the call of \<^verbatim>\<open>fflonk.BatchOpen\<close>, the first
  set of polynomials has \<open>t\<close> slots (\<open>t\<close> the value of \<^verbatim>\<open>getNextDivisorRMinusOne\<close>, at
  least \<open>15 + 2\<cdot>|Qcp|\<close>) and holds every slotted polynomial, the blinded \<open>Z\<close> included, at
  its slot: \<open>Ql, Qr, Qm, Qo\<close>, the incomplete \<open>Qk\<close>, \<open>S1, S2, S3\<close> and the \<open>Qcp\<close> in
  canonical form, the blinded \<open>L, R, O, Z\<close>, the chunks \<open>H1, H2, H3\<close> and the custom-gate
  witness polynomials; its point set is \<open>{\<zeta>}\<close>. The second set holds only the blinded
  \<open>Z\<close>, and its point set is \<open>{\<omega>\<cdot>\<zeta>\<^sup>t}\<close>.
\<close>

theorem batchOpening_sets:
  assumes run: "batchOpening_args E nd s = Some (polys, digests, points)"
    and k: "k = length (Qcp (s_trace s))"
    and t: "t = nd (Vk (s_pk s))"
  shows "length polys = 2
     \<and> points = [[s_zeta s], [s_zeta s ^ t * Generator (s_domain0 s)]]
     \<and> length (polys ! 0) = t
     \<and> 15 + 2 * k \<le> t
     \<and> polys ! 0 ! setup_ql = ext_ToCanonical E (s_domain0 s) (Ql (s_trace s))
     \<and> polys ! 0 ! setup_qr = ext_ToCanonical E (s_domain0 s) (Qr (s_trace s))
     \<and> polys ! 0 ! setup_qm = ext_ToCanonical E (s_domain0 s) (Qm (s_trace s))
     \<and> polys ! 0 ! setup_qo = ext_ToCanonical E (s_domain0 s) (Qo (s_trace s))
     \<and> polys ! 0 ! setup_qk_incomplete = ext_ToCanonical E (s_domain0 s) (Qk (s_trace s))
     \<and> polys ! 0 ! setup_s1 = ext_ToCanonical E (s_domain0 s) (S1 (s_trace s))
     \<and> polys ! 0 ! setup_s2 = ext_ToCanonical E (s_domain0 s) (S2 (s_trace s))
     \<and> polys ! 0 ! setup_s3 = ext_ToCanonical E (s_domain0 s) (S3 (s_trace s))
     \<and> (\<forall>i<k. polys ! 0 ! (setup_s3 + 1 + i) = ext_ToCanonical E (s_domain0 s) (Qcp (s_trace s) ! i))
     \<and> polys ! 0 ! (prover_l + k) = getBlindedCoefficients (s_x s ! id_L) (s_bp s ! id_Bl)
     \<and> polys ! 0 ! (prover_r + k) = getBlindedCoefficients (s_x s ! id_R) (s_bp s ! id_Br)
     \<and> polys ! 0 ! (prover_o + k) = getBlindedCoefficients (s_x s ! id_O) (s_bp s ! id_Bo)
     \<and> polys ! 0 ! (prover_z + k) = getBlindedCoefficients (s_x s ! id_Z) (s_bp s ! id_Bz)
     \<and> h1 s = Some (polys ! 0 ! (prover_h_1 + k))
     \<and> h2 s = Some (polys ! 0 ! (prover_h_2 + k))
     \<and> h3 s = Some (polys ! 0 ! (prover_h_3 + k))
     \<and> (\<forall>i<k. polys ! 0 ! (number_polynomials + k + i)
                 = ext_ToCanonical E (s_domain0 s) (s_x s ! (id_Qci + 2 * i + 1)))
     \<and> (\<forall>j. 15 + 2 * k \<le> j \<and> j < t \<longrightarrow> polys ! 0 ! j = [])
     \<and> polys ! 1 = [getBlindedCoefficients (s_x s ! id_Z) (s_bp s ! id_Bz)]"
proof -
  let ?canon = "ext_ToCanonical E (s_domain0 s)"
  let ?tr = "s_trace s"
  from batchOpening_args_chain[OF run]
  obtain p8 p9 p16 p17 c1 c2 c3 where
    p8: "p8 = (replicate t [])
             [setup_ql := ?canon (Ql ?tr), setup_qr := ?canon (Qr ?tr),
              setup_qm := ?canon (Qm ?tr), setup_qo := ?canon (Qo ?tr),
              setup_qk_incomplete := ?canon (Qk ?tr), setup_s1 := ?canon (S1 ?tr),
              setup_s2 := ?canon (S2 ?tr), setup_s3 := ?canon (S3 ?tr)]"
    and t8: "setup_s3 < t"
    and loop1: "foldM_opt (\<lambda>i p0. do {
                 q \<leftarrow> nth_opt (Qcp ?tr) i;
                 upd_opt p0 (setup_s3 + 1 + i) (?canon q)
               }) [0 ..< k] p8 = Some p9"
    and hs: "h1 s = Some c1" "h2 s = Some c2" "h3 s = Some c3"
    and r16: "prover_h_3 + k < length p9"
    and p16: "p16 = p9
             [prover_l + k := getBlindedCoefficients (s_x s ! id_L) (s_bp s ! id_Bl),
              prover_r + k := getBlindedCoefficients (s_x s ! id_R) (s_bp s ! id_Br),
              prover_o + k := getBlindedCoefficients (s_x s ! id_O) (s_bp s ! id_Bo),
              prover_z + k := getBlindedCoefficients (s_x s ! id_Z) (s_bp s ! id_Bz),
              prover_h_1 + k := c1, prover_h_2 + k := c2, prover_h_3 + k := c3]"
    and loop2: "foldM_opt (\<lambda>i p0. do {
                 q \<leftarrow> nth_opt (s_x s) (id_Qci + 2 * i + 1);
                 upd_opt p0 (number_polynomials + k + i) (?canon q)
               }) [0 ..< k] p16 = Some p17"
    and polys: "polys = [p17, [getBlindedCoefficients (s_x s ! id_Z) (s_bp s ! id_Bz)]]"
    and points: "points = [[s_zeta s], [s_zeta s ^ t * Generator (s_domain0 s)]]"
    unfolding k t by blast
  have l8: "length p8 = t" using p8 by simp
  note w1 = write_loop[where f = "\<lambda>i. i" and g = ?canon, OF loop1]
  have l9: "length p9 = t" using w1(1) l8 by simp
  have v9: "\<forall>j<t. p9 ! j = (if setup_s3 + 1 \<le> j \<and> j < setup_s3 + 1 + k
                            then ?canon (Qcp ?tr ! (j - (setup_s3 + 1))) else p8 ! j)"
    using w1(2) l8 by simp
  have l16: "length p16 = t" using p16 l9 by simp
  note w2 = write_loop[where f = "\<lambda>i. id_Qci + 2 * i + 1" and g = ?canon, OF loop2]
  have l17: "length p17 = t" using w2(1) l16 by simp
  have v17: "\<forall>j<t. p17 ! j = (if number_polynomials + k \<le> j \<and> j < number_polynomials + k + k
                            then ?canon (s_x s ! (id_Qci + 2 * (j - (number_polynomials + k)) + 1))
                            else p16 ! j)"
    using w2(2) l16 by simp
  have big: "15 + 2 * k \<le> t"
  proof (cases "k = 0")
    case True
    then show ?thesis using r16 l9 by (simp add: slot_defs)
  next
    case False
    then show ?thesis using w2(3) l16 by (simp add: slot_defs)
  qed
  have fixed8: "\<forall>j<t. p8 ! j =
      (if j = 0 then ?canon (Ql ?tr) else if j = 1 then ?canon (Qr ?tr)
       else if j = 2 then ?canon (Qm ?tr) else if j = 3 then ?canon (Qo ?tr)
       else if j = 4 then ?canon (Qk ?tr) else if j = 5 then ?canon (S1 ?tr)
       else if j = 6 then ?canon (S2 ?tr) else if j = 7 then ?canon (S3 ?tr) else [])"
    unfolding p8 by (simp add: slot_defs nth_list_update)
  have v16: "\<forall>j<t. p16 ! j =
      (if j = 8 + k then getBlindedCoefficients (s_x s ! id_L) (s_bp s ! id_Bl)
       else if j = 9 + k then getBlindedCoefficients (s_x s ! id_R) (s_bp s ! id_Br)
       else if j = 10 + k then getBlindedCoefficients (s_x s ! id_O) (s_bp s ! id_Bo)
       else if j = 11 + k then getBlindedCoefficients (s_x s ! id_Z) (s_bp s ! id_Bz)
       else if j = 12 + k then c1 else if j = 13 + k then c2 else if j = 14 + k then c3
       else p9 ! j)"
    unfolding p16 using l9 by (simp add: slot_defs nth_list_update)
  have final: "\<forall>j<t. p17 ! j =
      (if j = 0 then ?canon (Ql ?tr) else if j = 1 then ?canon (Qr ?tr)
       else if j = 2 then ?canon (Qm ?tr) else if j = 3 then ?canon (Qo ?tr)
       else if j = 4 then ?canon (Qk ?tr) else if j = 5 then ?canon (S1 ?tr)
       else if j = 6 then ?canon (S2 ?tr) else if j = 7 then ?canon (S3 ?tr)
       else if j < 8 + k then ?canon (Qcp ?tr ! (j - 8))
       else if j = 8 + k then getBlindedCoefficients (s_x s ! id_L) (s_bp s ! id_Bl)
       else if j = 9 + k then getBlindedCoefficients (s_x s ! id_R) (s_bp s ! id_Br)
       else if j = 10 + k then getBlindedCoefficients (s_x s ! id_O) (s_bp s ! id_Bo)
       else if j = 11 + k then getBlindedCoefficients (s_x s ! id_Z) (s_bp s ! id_Bz)
       else if j = 12 + k then c1 else if j = 13 + k then c2 else if j = 14 + k then c3
       else if j < 15 + 2 * k then ?canon (s_x s ! (id_Qci + 2 * (j - (15 + k)) + 1))
       else [])"
  proof (intro allI impI)
    fix j assume j: "j < t"
    show "p17 ! j =
      (if j = 0 then ?canon (Ql ?tr) else if j = 1 then ?canon (Qr ?tr)
       else if j = 2 then ?canon (Qm ?tr) else if j = 3 then ?canon (Qo ?tr)
       else if j = 4 then ?canon (Qk ?tr) else if j = 5 then ?canon (S1 ?tr)
       else if j = 6 then ?canon (S2 ?tr) else if j = 7 then ?canon (S3 ?tr)
       else if j < 8 + k then ?canon (Qcp ?tr ! (j - 8))
       else if j = 8 + k then getBlindedCoefficients (s_x s ! id_L) (s_bp s ! id_Bl)
       else if j = 9 + k then getBlindedCoefficients (s_x s ! id_R) (s_bp s ! id_Br)
       else if j = 10 + k then getBlindedCoefficients (s_x s ! id_O) (s_bp s ! id_Bo)
       else if j = 11 + k then getBlindedCoefficients (s_x s ! id_Z) (s_bp s ! id_Bz)
       else if j = 12 + k then c1 else if j = 13 + k then c2 else if j = 14 + k then c3
       else if j < 15 + 2 * k then ?canon (s_x s ! (id_Qci + 2 * (j - (15 + k)) + 1))
       else [])"
      using v17[rule_format, OF j] v16[rule_format, OF j] v9[rule_format, OF j]
        fixed8[rule_format, OF j]
      by (auto simp: slot_defs)
  qed
  have p0: "polys ! 0 = p17" and p1: "polys ! 1 = [getBlindedCoefficients (s_x s ! id_Z) (s_bp s ! id_Bz)]"
    and lp: "length polys = 2" using polys by simp_all
  have qcp: "\<forall>i<k. p17 ! (setup_s3 + 1 + i) = ?canon (Qcp ?tr ! i)"
    using final big by (simp add: slot_defs)
  have bsb: "\<forall>i<k. p17 ! (number_polynomials + k + i) = ?canon (s_x s ! (id_Qci + 2 * i + 1))"
    using final big by (simp add: slot_defs)
  have rest: "\<forall>j. 15 + 2 * k \<le> j \<and> j < t \<longrightarrow> p17 ! j = []"
    using final by simp
  have slots: "p17 ! setup_ql = ?canon (Ql ?tr)" "p17 ! setup_qr = ?canon (Qr ?tr)"
      "p17 ! setup_qm = ?canon (Qm ?tr)" "p17 ! setup_qo = ?canon (Qo ?tr)"
      "p17 ! setup_qk_incomplete = ?canon (Qk ?tr)" "p17 ! setup_s1 = ?canon (S1 ?tr)"
      "p17 ! setup_s2 = ?canon (S2 ?tr)" "p17 ! setup_s3 = ?canon (S3 ?tr)"
      "p17 ! (prover_l + k) = getBlindedCoefficients (s_x s ! id_L) (s_bp s ! id_Bl)"
      "p17 ! (prover_r + k) = getBlindedCoefficients (s_x s ! id_R) (s_bp s ! id_Br)"
      "p17 ! (prover_o + k) = getBlindedCoefficients (s_x s ! id_O) (s_bp s ! id_Bo)"
      "p17 ! (prover_z + k) = getBlindedCoefficients (s_x s ! id_Z) (s_bp s ! id_Bz)"
      "p17 ! (prover_h_1 + k) = c1" "p17 ! (prover_h_2 + k) = c2" "p17 ! (prover_h_3 + k) = c3"
    using final big by (simp_all add: slot_defs)
  show ?thesis
    unfolding p0 p1 using lp points l17 big slots hs qcp bsb rest by simp
qed

lemma toy_opening_args:
  "batchOpening_args toy_ext (\<lambda>vk. 15) toy_opening =
     Some ([[[- (1 / 2), - (1 / 2)], [0, 0], [1 / 2, - (1 / 2)], [- (1 / 2), 1 / 2],
             [0, 0], [- 3, - 1], [0, 1], [3, - 1], [4, 2], [0, 2], [0, 4], [1, 3],
             [1, 2, 3, 4], [5, 6, 7, 8], [9, 10, 11, 12]],
            [[1, 3]]],
           [3 / 2, 9], [[3], [- 14348907]])"
  by code_simp

lemma toy_opening_commit_args:
  "batchOpening_args toy_ext (\<lambda>vk. 17) toy_opening_commit =
     Some ([[[- (1 / 2), - (1 / 2)], [0, 0], [1 / 2, - (1 / 2)], [- (1 / 2), 1 / 2],
             [0, 0], [- 3, - 1], [0, 1], [3, - 1], [1 / 2, - (1 / 2)], [4, 2],
             [0, 2], [0, 4], [1, 3], [1, 2, 3, 4], [5, 6, 7, 8], [9, 10, 11, 12],
             [11 / 2, - (1 / 2)]],
            [[1, 3]]],
           [29 / 2, 9], [[3], [- 129140163]])"
  by code_simp

theorem batchOpening_sets_witness:
  "\<exists>polys digests points.
      batchOpening_args toy_ext (\<lambda>vk. 17) toy_opening_commit = Some (polys, digests, points)
    \<and> length (Qcp (s_trace toy_opening_commit)) = 1
    \<and> length polys = 2
    \<and> length (polys ! 0) = 17
    \<and> points = [[3], [3 ^ 17 * (- 1)]]
    \<and> polys ! 0 ! (setup_s3 + 1 + 0) = [1 / 2, - (1 / 2)]
    \<and> polys ! 0 ! (prover_z + 1) = [1, 3]
    \<and> polys ! 0 ! (number_polynomials + 1 + 0) = [11 / 2, - (1 / 2)]
    \<and> polys ! 1 = [[1, 3]]"
proof -
  let ?polys = "[[[- (1 / 2), - (1 / 2)], [0, 0], [1 / 2, - (1 / 2)], [- (1 / 2), 1 / 2],
             [0, 0], [- 3, - 1], [0, 1], [3, - 1], [1 / 2, - (1 / 2)], [4, 2],
             [0, 2], [0, 4], [1, 3], [1, 2, 3, 4], [5, 6, 7, 8], [9, 10, 11, 12],
             [11 / 2, - (1 / 2)]],
            [[1, 3 :: rat]]]"
  have k: "(1::nat) = length (Qcp (s_trace toy_opening_commit))"
    by (simp add: toy_opening_commit_def toy_trace_commit_def)
  have t: "(17::nat) = (\<lambda>vk. 17) (Vk (s_pk toy_opening_commit))" by simp
  note r = batchOpening_sets[OF toy_opening_commit_args k t]
  have z: "getBlindedCoefficients (s_x toy_opening_commit ! id_Z) (s_bp toy_opening_commit ! id_Bz) = [1, 3]"
    by (simp add: toy_opening_commit_def toy_instance_def id_defs getBlindedCoefficients_def)
  have k': "length (Qcp (s_trace toy_opening_commit)) = 1" using k by simp
  have a: "length ?polys = 2" "length (?polys ! 0) = 17"
      "[[3], [- 129140163]] = [[s_zeta toy_opening_commit], [s_zeta toy_opening_commit ^ 17 * Generator (s_domain0 toy_opening_commit)]]"
      "?polys ! 0 ! (prover_z + 1) = getBlindedCoefficients (s_x toy_opening_commit ! id_Z) (s_bp toy_opening_commit ! id_Bz)"
      "?polys ! 1 = [getBlindedCoefficients (s_x toy_opening_commit ! id_Z) (s_bp toy_opening_commit ! id_Bz)]"
    using r by blast+
  have v: "s_zeta toy_opening_commit = 3" "Generator (s_domain0 toy_opening_commit) = - 1"
    by (simp_all add: toy_opening_commit_def toy_instance_def toy_domain_def)
  have pts: "[[3], [- 129140163]] = [[3], [3 ^ 17 * (- 1 :: rat)]]"
    using a(3) unfolding v .
  have b: "?polys ! 0 ! (setup_s3 + 1 + 0) = [1 / 2, - (1 / 2)]"
      "?polys ! 0 ! (number_polynomials + 1 + 0) = [11 / 2, - (1 / 2)]"
    by (simp_all add: slot_defs)
  have c: "?polys ! 0 ! (prover_z + 1) = [1, 3]" "?polys ! 1 = [[1, 3]]"
    using a(4,5) unfolding z by simp_all
  show ?thesis
    using toy_opening_commit_args k' a(1,2) pts b c by blast
qed

text \<open>
  The claim as stated fails: on the instance \<open>toy_opening\<close> the blinded \<open>Z\<close>, the
  polynomial \<open>[1, 3]\<close>, is a member of the first set (at the slot \<open>prover_z\<close>), as well as
  the only member of the second.
\<close>

theorem batchOpening_first_set_holds_Z:
  "\<exists>polys digests points.
      batchOpening_args toy_ext (\<lambda>vk. 15) toy_opening = Some (polys, digests, points)
    \<and> getBlindedCoefficients (s_x toy_opening ! id_Z) (s_bp toy_opening ! id_Bz) = [1, 3]
    \<and> polys ! 0 ! prover_z = [1, 3]
    \<and> [1, 3] \<in> set (polys ! 0)
    \<and> polys ! 1 = [[1, 3]]"
proof -
  have z: "getBlindedCoefficients (s_x toy_opening ! id_Z) (s_bp toy_opening ! id_Bz) = [1, 3]"
    by (simp add: toy_opening_def toy_instance_def id_defs getBlindedCoefficients_def)
  show ?thesis
    using toy_opening_args z by (simp add: slot_defs)
qed

end
